theory Spec2Isabelle
  imports Main "HOL-Library.Word"
begin

section \<open>Retrieval of the Adobe ADEPT user key (ade\_key.py)\<close>

text \<open>
  The module \<^verbatim>\<open>ade_key.py\<close> defines \<^verbatim>\<open>retrieve_key\<close> twice: once for Windows
  (registry, DPAPI, AES) and once for every other host (the activation document of
  Mac OS X). Both are embedded here. A Python 2 \<^verbatim>\<open>str\<close> is a string of bytes, so it is
  a \<^typ>\<open>string\<close>: \<^verbatim>\<open>ord\<close> is \<^const>\<open>of_char\<close>, \<^verbatim>\<open>chr\<close> is \<^const>\<open>char_of\<close>.
\<close>

subsection \<open>Exceptions and effects\<close>

text \<open>
  \<^verbatim>\<open>ADEPTError\<close> is the only exception class of the module; it carries its message.
  The other constructors are the exceptions of the library calls the module makes
  and does not catch.
\<close>

datatype error =
    ADEPTError string
  | WindowsError
  | IndexError
  | AttributeError
  | ValueError
  | Base64Error
  | ParseError

datatype domain = kUserDomain | kLocalDomain

text \<open>
  Every call that leaves the interpreter is recorded: the processor instruction, the
  operating system queries, the registry, the secret-protection service, the cipher and
  the file system. A registry key is named by its path below \<^verbatim>\<open>HKEY_CURRENT_USER\<close>.
\<close>

datatype event =
    GetSystemDirectoryW
  | GetVolumeInformationW string
  | CPUID "32 word"
  | GetUserNameW
  | RegOpenKey "string list"
  | RegQueryValueEx "string list" string
  | CryptUnprotect
  | AESDecrypt
  | FSFindFolder domain
  | IsFile string
  | ParseFile string

text \<open>A computation yields the calls it made, in order, and an exception or a value.\<close>

type_synonym 'a io = "event list \<times> (error + 'a)"

definition io_return :: "'a \<Rightarrow> 'a io" where
  "io_return a = ([], Inr a)"

definition io_raise :: "error \<Rightarrow> 'a io" where
  "io_raise e = ([], Inl e)"

definition io_call :: "event \<Rightarrow> (error + 'a) \<Rightarrow> 'a io" where
  "io_call ev r = ([ev], r)"

definition io_bind :: "'a io \<Rightarrow> ('a \<Rightarrow> 'b io) \<Rightarrow> 'b io" where
  "io_bind m f =
     (case m of
        (t, Inl e) \<Rightarrow> (t, Inl e)
      | (t, Inr a) \<Rightarrow> (case f a of (t', r) \<Rightarrow> (t @ t', r)))"

text \<open>
  \<^verbatim>\<open>try: x = m\<close> / \<^verbatim>\<open>except WindowsError: handler\<close>, followed by the statements \<open>rest\<close>
  that use \<^verbatim>\<open>x\<close>.
\<close>

definition try_except_WindowsError :: "'a io \<Rightarrow> 'b io \<Rightarrow> ('a \<Rightarrow> 'b io) \<Rightarrow> 'b io" where
  "try_except_WindowsError m handler rest =
     (case m of
        (t, Inl e) \<Rightarrow>
          (if e = WindowsError then (case handler of (t', r) \<Rightarrow> (t @ t', r)) else (t, Inl e))
      | (t, Inr x) \<Rightarrow> (case rest x of (t', r) \<Rightarrow> (t @ t', r)))"

abbreviation trace :: "'a io \<Rightarrow> event list" where
  "trace m \<equiv> fst m"

abbreviation outcome :: "'a io \<Rightarrow> error + 'a" where
  "outcome m \<equiv> snd m"

subsection \<open>Python operations on strings\<close>

text \<open>
  \<^verbatim>\<open>s[lo:hi]\<close>: an absent bound is \<^verbatim>\<open>None\<close>; a negative bound counts from the end;
  both are clamped to the string, and the slice is empty when the bounds cross.
\<close>

definition py_slice :: "'a list \<Rightarrow> int option \<Rightarrow> int option \<Rightarrow> 'a list" where
  "py_slice s lo hi =
     (let n = int (length s);
          clamp = (\<lambda>i. if i < 0 then max (i + n) 0 else min i n);
          a = (case lo of None \<Rightarrow> 0 | Some i \<Rightarrow> clamp i);
          b = (case hi of None \<Rightarrow> n | Some j \<Rightarrow> clamp j)
      in take (nat (b - a)) (drop (nat a) s))"

text \<open>\<^verbatim>\<open>s[i]\<close>: a negative index counts from the end; out of range raises.\<close>

definition py_getitem :: "'a list \<Rightarrow> int \<Rightarrow> 'a io" where
  "py_getitem s i =
     (let n = int (length s); j = (if i < 0 then i + n else i)
      in if 0 \<le> j \<and> j < n then io_return (s ! nat j) else io_raise IndexError)"

text \<open>\<^verbatim>\<open>s[::2]\<close>\<close>

fun py_slice_step2 :: "'a list \<Rightarrow> 'a list" where
  "py_slice_step2 [] = []"
| "py_slice_step2 [x] = [x]"
| "py_slice_step2 (x # y # s) = x # py_slice_step2 s"

text \<open>\<^verbatim>\<open>"%04d" % (i,)\<close> for \<^verbatim>\<open>i >= 0\<close>: the decimal digits, zero-padded on the left to width 4.\<close>

fun decimal :: "nat \<Rightarrow> string" where
  "decimal n =
     (if n < 10 then [char_of (48 + n)] else decimal (n div 10) @ [char_of (48 + n mod 10)])"

declare decimal.simps [simp del]

definition fmt04d :: "nat \<Rightarrow> string" where
  "fmt04d i = (let d = decimal i in replicate (4 - length d) (CHR ''0'') @ d)"

text \<open>
  \<^verbatim>\<open>struct.pack\<close>, big-endian (\<^verbatim>\<open>'>'\<close>: standard sizes, no alignment). \<^verbatim>\<open>I\<close> packs an
  unsigned 32-bit integer into 4 bytes, most significant first; \<^verbatim>\<open>Ns\<close> packs a string
  into exactly \<^verbatim>\<open>N\<close> bytes, cut or filled with null bytes.
\<close>

definition pack_I :: "32 word \<Rightarrow> string" where
  "pack_I v = map (\<lambda>k. char_of (unat (drop_bit k v))) [24, 16, 8, 0]"

definition pack_s :: "nat \<Rightarrow> string \<Rightarrow> string" where
  "pack_s n s = take n s @ replicate (n - length s) (CHR 0x00)"

definition pack_I12s3s13s :: "32 word \<Rightarrow> string \<Rightarrow> string \<Rightarrow> string \<Rightarrow> string" where
  "pack_I12s3s13s a b c d = pack_I a @ pack_s 12 b @ pack_s 3 c @ pack_s 13 d"

text \<open>\<^verbatim>\<open>u.encode('utf-16-le')\<close> on a string of 16-bit code units: low byte, then high byte.\<close>

definition encode_utf_16_le :: "16 word list \<Rightarrow> string" where
  "encode_utf_16_le u = concat (map (\<lambda>c. [char_of (unat c), char_of (unat (drop_bit 8 c))]) u)"

text \<open>\<^verbatim>\<open>os.path.join(a, b)\<close> of \<^verbatim>\<open>posixpath\<close>.\<close>

definition os_path_join :: "string \<Rightarrow> string \<Rightarrow> string" where
  "os_path_join a b =
     (if b \<noteq> [] \<and> hd b = CHR ''/'' then b
      else if a = [] \<or> last a = CHR ''/'' then a @ b
      else a @ ''/'' @ b)"

subsection \<open>The host\<close>

text \<open>
  The registry: a key holds named values and sub-keys. The unnamed (default) value of a
  key has the empty name. Names are kept as the program writes them (digits and lower
  case).
\<close>

datatype regkey = RegKey (reg_values: "(string \<times> string) list") (subkeys: "(string \<times> regkey) list")

text \<open>An open key handle: the path it was opened by, and the key.\<close>

type_synonym hkey = "string list \<times> regkey"

text \<open>The registers after the \<^verbatim>\<open>cpuid\<close> instruction.\<close>

record cpu_regs =
  eax :: "32 word"
  ebx :: "32 word"
  ecx :: "32 word"
  edx :: "32 word"

text \<open>An element of a parsed document: its tag, its text and its children in order.\<close>

datatype element = Element (tag: string) (text_of: "string option") (children: "element list")

text \<open>
  What the module reads from outside itself, one field for each library or system
  facility. \<open>aes\<close> is the module global \<^verbatim>\<open>_aes\<close>: \<open>None\<close> when PyCrypto could not be
  imported, else CBC decryption with the implicit initialisation vector, from key and
  ciphertext to plaintext (\<open>None\<close>: the library raises \<^verbatim>\<open>ValueError\<close>).
  \<open>base64\<close> is the \<^verbatim>\<open>'base64'\<close> codec (\<open>None\<close>: it raises).
  \<open>volume_serial\<close> is the value left in \<^verbatim>\<open>vsn\<close> by \<^verbatim>\<open>GetVolumeInformationW\<close> for a
  root path. \<open>user_name\<close> is the wide string \<^verbatim>\<open>GetUserNameW\<close> leaves in the buffer.
  \<open>dpapi\<close> is \<^verbatim>\<open>CryptUnprotectData\<close> of crypt32 on data and entropy (\<open>None\<close>: it
  returns 0). \<open>folders\<close> is \<^verbatim>\<open>FSFindFolder\<close> for the application-support folder of a
  domain (\<open>None\<close>: \<^verbatim>\<open>MacOS.Error\<close>), \<open>isfile\<close> is \<^verbatim>\<open>os.path.isfile\<close>, and
  \<open>parse\<close> gives the root element of the document at a path (\<open>None\<close>: the parser
  raises).
\<close>

record host =
  iswindows :: bool
  aes :: "(string \<Rightarrow> string \<Rightarrow> string option) option"
  base64 :: "string \<Rightarrow> string option"
  system_directory :: string
  volume_serial :: "string \<Rightarrow> 32 word"
  cpuid :: "32 word \<Rightarrow> cpu_regs"
  user_name :: "16 word list"
  hkcu :: regkey
  dpapi :: "string \<Rightarrow> string \<Rightarrow> string option"
  folders :: "domain \<Rightarrow> string option"
  isfile :: "string \<Rightarrow> bool"
  parse :: "string \<Rightarrow> element option"

subsection \<open>Windows: the wrapped system calls\<close>

text \<open>
  Each wrapper of the module makes one call of the host and returns what the call left
  in its buffer. \<^verbatim>\<open>GetVolumeSerialNumber\<close> ignores the return code of the call, so \<open>vsn\<close>
  is what the host's field gives for the path. \<^verbatim>\<open>GetUserName\<close> calls again with a
  doubled buffer until the call succeeds: \<open>user_name\<close> is the name of that last call,
  a string of 16-bit code units, of which the wrapper returns every second byte of the
  UTF-16-LE encoding. \<^verbatim>\<open>NativeFunction\<close> copies the instruction bytes to executable
  memory and calls them: the field \<open>cpuid\<close> gives the registers after the instruction.
\<close>

definition GetSystemDirectory :: "host \<Rightarrow> string io" where
  "GetSystemDirectory h = io_call GetSystemDirectoryW (Inr (system_directory h))"

definition GetVolumeSerialNumber :: "host \<Rightarrow> string \<Rightarrow> (32 word) io" where
  "GetVolumeSerialNumber h path =
     io_call (GetVolumeInformationW path) (Inr (volume_serial h path))"

definition GetUserName :: "host \<Rightarrow> string io" where
  "GetUserName h =
     io_call GetUserNameW (Inr (py_slice_step2 (encode_utf_16_le (user_name h))))"

text \<open>A 32-bit register stored to memory by \<^verbatim>\<open>mov\<close>: least significant byte first.\<close>

definition mov_store :: "32 word \<Rightarrow> string" where
  "mov_store r = map (\<lambda>k. char_of (unat (drop_bit k r))) [0, 8, 16, 24]"

text \<open>
  \<^verbatim>\<open>CPUID0_INSNS\<close>: \<^verbatim>\<open>cpuid\<close> with \<^verbatim>\<open>eax = 0\<close>, then \<^verbatim>\<open>ebx\<close>, \<^verbatim>\<open>edx\<close>, \<^verbatim>\<open>ecx\<close> stored at
  offsets 0, 4 and 8 of the 12-byte buffer. \<^verbatim>\<open>CPUID1_INSNS\<close>: \<^verbatim>\<open>cpuid\<close> with \<^verbatim>\<open>eax = 1\<close>,
  and \<^verbatim>\<open>eax\<close> returned as a \<^verbatim>\<open>c_uint\<close>.
\<close>

definition cpuid0 :: "host \<Rightarrow> string io" where
  "cpuid0 h =
     io_call (CPUID 0)
       (let r = cpuid h 0 in Inr (mov_store (ebx r) @ mov_store (edx r) @ mov_store (ecx r)))"

definition cpuid1 :: "host \<Rightarrow> (32 word) io" where
  "cpuid1 h = io_call (CPUID 1) (Inr (eax (cpuid h 1)))"

definition CryptUnprotectData :: "host \<Rightarrow> string \<Rightarrow> string \<Rightarrow> string io" where
  "CryptUnprotectData h indata entropy =
     io_call CryptUnprotect
       (case dpapi h indata entropy of
          None \<Rightarrow> Inl (ADEPTError ''Failed to decrypt user key key (sic)'')
        | Some outdata \<Rightarrow> Inr outdata)"

text \<open>\<^verbatim>\<open>winreg.OpenKey(key, sub_key)\<close> and \<^verbatim>\<open>winreg.QueryValueEx(key, value_name)[0]\<close>.\<close>

definition OpenKey :: "hkey \<Rightarrow> string \<Rightarrow> hkey io" where
  "OpenKey key sub_key =
     (case key of (path, k) \<Rightarrow>
        io_call (RegOpenKey (path @ [sub_key]))
          (case map_of (subkeys k) sub_key of
             None \<Rightarrow> Inl WindowsError
           | Some k' \<Rightarrow> Inr (path @ [sub_key], k')))"

definition QueryValueEx :: "hkey \<Rightarrow> string option \<Rightarrow> string io" where
  "QueryValueEx key value_name =
     (case key of (path, k) \<Rightarrow>
        (let name = (case value_name of None \<Rightarrow> [] | Some n \<Rightarrow> n)
         in io_call (RegQueryValueEx path name)
              (case map_of (reg_values k) name of
                 None \<Rightarrow> Inl WindowsError
               | Some v \<Rightarrow> Inr v)))"

text \<open>
  \<^verbatim>\<open>HKEY_CURRENT_USER\<close>. The program opens two keys below it, each by a whole path, so a
  sub-key of \<open>hkcu\<close> is named by such a path.
\<close>

definition cuser :: "host \<Rightarrow> hkey" where
  "cuser h = ([], hkcu h)"

definition DEVICE_KEY_PATH :: string where
  "DEVICE_KEY_PATH =
     ''Software'' @ [CHR 0x5C] @ ''Adobe'' @ [CHR 0x5C] @ ''Adept'' @ [CHR 0x5C] @ ''Device''"

definition PRIVATE_LICENCE_KEY_PATH :: string where
  "PRIVATE_LICENCE_KEY_PATH =
     ''Software'' @ [CHR 0x5C] @ ''Adobe'' @ [CHR 0x5C] @ ''Adept'' @ [CHR 0x5C] @ ''Activation''"

text \<open>\<^verbatim>\<open>s.decode('base64')\<close>\<close>

definition decode_base64 :: "host \<Rightarrow> string \<Rightarrow> string io" where
  "decode_base64 h s = (case base64 h s of None \<Rightarrow> io_raise Base64Error | Some b \<Rightarrow> io_return b)"

subsection \<open>Windows: \<^verbatim>\<open>retrieve_key\<close>\<close>

text \<open>Lines 198 to 203: the entropy handed to \<^verbatim>\<open>CryptUnprotectData\<close>.\<close>

definition build_entropy :: "host \<Rightarrow> string io" where
  "build_entropy h =
     io_bind (GetSystemDirectory h) (\<lambda>sysdir.
     let root = takeWhile (\<lambda>c. c \<noteq> CHR 0x5C) sysdir @ [CHR 0x5C] in
     io_bind (GetVolumeSerialNumber h root) (\<lambda>serial.
     io_bind (cpuid0 h) (\<lambda>vendor.
     io_bind (cpuid1 h) (\<lambda>feature.
     let signature = py_slice (pack_I feature) (Some 1) None in
     io_bind (GetUserName h) (\<lambda>user.
     io_return (pack_I12s3s13s serial vendor signature user))))))"

text \<open>
  Lines 224 to 233, the inner loop over \<^verbatim>\<open>xrange(0, 16)\<close>: the value of \<^verbatim>\<open>userkey\<close>
  when the loop is left.
\<close>

fun scan_leaves :: "hkey \<Rightarrow> nat list \<Rightarrow> (string option) io" where
  "scan_leaves plkparent [] = io_return None"
| "scan_leaves plkparent (j # rest) =
     try_except_WindowsError (OpenKey plkparent (fmt04d j))
       (io_return None)
       (\<lambda>plkkey.
          io_bind (QueryValueEx plkkey None) (\<lambda>ktype.
          if ktype \<noteq> ''privateLicenseKey'' then scan_leaves plkparent rest
          else io_bind (QueryValueEx plkkey (Some ''value'')) (\<lambda>userkey.
               io_return (Some userkey))))"

text \<open>Lines 216 to 235, the outer loop over \<^verbatim>\<open>xrange(0, 16)\<close>.\<close>

fun scan_parents :: "hkey \<Rightarrow> nat list \<Rightarrow> (string option) io" where
  "scan_parents plkroot [] = io_return None"
| "scan_parents plkroot (i # rest) =
     try_except_WindowsError (OpenKey plkroot (fmt04d i))
       (io_return None)
       (\<lambda>plkparent.
          io_bind (QueryValueEx plkparent None) (\<lambda>ktype.
          if ktype \<noteq> ''credentials'' then scan_parents plkroot rest
          else io_bind (scan_leaves plkparent [0..<16]) (\<lambda>userkey.
               if userkey \<noteq> None then io_return userkey
               else scan_parents plkroot rest)))"

text \<open>Lines 211 to 237: the search of the activation key for the wrapped user key.\<close>

definition find_license_key :: "host \<Rightarrow> string io" where
  "find_license_key h =
     try_except_WindowsError (OpenKey (cuser h) PRIVATE_LICENCE_KEY_PATH)
       (io_raise (ADEPTError ''Could not locate ADE activation''))
       (\<lambda>plkroot.
          io_bind (scan_parents plkroot [0..<16]) (\<lambda>userkey.
          case userkey of
            None \<Rightarrow> io_raise (ADEPTError ''Could not locate privateLicenseKey'')
          | Some userkey \<Rightarrow> io_return userkey))"

text \<open>Line 240: \<^verbatim>\<open>userkey[26:-ord(userkey[-1])]\<close>\<close>

definition strip :: "string \<Rightarrow> string io" where
  "strip userkey =
     io_bind (py_getitem userkey (- 1)) (\<lambda>c.
     io_return (py_slice userkey (Some 26) (Some (- of_char c))))"

text \<open>Lines 238 to 240: decoding, decryption and trimming of the wrapped user key.\<close>

definition finalize ::
  "host \<Rightarrow> (string \<Rightarrow> string \<Rightarrow> string option) \<Rightarrow> string \<Rightarrow> string \<Rightarrow> string io" where
  "finalize h aes_cbc keykey userkey =
     io_bind (decode_base64 h userkey) (\<lambda>userkey.
     io_bind (io_call AESDecrypt
                (case aes_cbc keykey userkey of None \<Rightarrow> Inl ValueError | Some p \<Rightarrow> Inr p))
       (\<lambda>userkey.
     strip userkey))"

definition retrieve_key_windows :: "host \<Rightarrow> string io" where
  "retrieve_key_windows h =
     (case aes h of
        None \<Rightarrow> io_raise (ADEPTError (''Couldn'' @ [CHR 0x27] @ ''t load PyCrypto''))
      | Some aes_cbc \<Rightarrow>
          io_bind (build_entropy h) (\<lambda>entropy.
          try_except_WindowsError (OpenKey (cuser h) DEVICE_KEY_PATH)
            (io_raise (ADEPTError ''Adobe Digital Editions not activated''))
            (\<lambda>regkey.
          io_bind (QueryValueEx regkey (Some ''key'')) (\<lambda>device.
          io_bind (CryptUnprotectData h device entropy) (\<lambda>keykey.
          io_bind (find_license_key h) (\<lambda>userkey.
          finalize h aes_cbc keykey userkey))))))"

subsection \<open>Mac OS X: \<^verbatim>\<open>retrieve_key\<close>\<close>

definition ACTIVATION_PATH :: string where
  "ACTIVATION_PATH = ''Adobe/Digital Editions/activation.dat''"

definition adept :: "string \<Rightarrow> string" where
  "adept t = ''{'' @ ''http://ns.adobe.com/adept'' @ ''}'' @ t"

definition find_folder :: "host \<Rightarrow> domain \<Rightarrow> (string option) io" where
  "find_folder h dmn = io_call (FSFindFolder dmn) (Inr (folders h dmn))"

fun find_in_domains :: "host \<Rightarrow> string \<Rightarrow> domain list \<Rightarrow> (string option) io" where
  "find_in_domains h subpath [] = io_return None"
| "find_in_domains h subpath (dmn # rest) =
     io_bind (find_folder h dmn) (\<lambda>path.
     case path of
       None \<Rightarrow> find_in_domains h subpath rest
     | Some path \<Rightarrow>
         (let path = os_path_join path subpath
          in io_bind (io_call (IsFile path) (Inr (isfile h path))) (\<lambda>found.
             if found then io_return (Some path) else find_in_domains h subpath rest)))"

definition find_app_support_file :: "host \<Rightarrow> string \<Rightarrow> (string option) io" where
  "find_app_support_file h subpath = find_in_domains h subpath [kUserDomain, kLocalDomain]"

text \<open>\<^verbatim>\<open>Element.iter()\<close>: the element, then its descendants, in document order.\<close>

fun iter :: "element \<Rightarrow> element list" where
  "iter (Element t x cs) = Element t x cs # concat (map iter cs)"

text \<open>
  \<^verbatim>\<open>tree.findtext('//A/B')\<close>: the tree prefixes the path with a dot; \<^verbatim>\<open>.//A\<close> selects the
  proper descendants of the root tagged \<^verbatim>\<open>A\<close> in document order, \<^verbatim>\<open>/B\<close> their children
  tagged \<^verbatim>\<open>B\<close>. The text of the first element found is returned, the empty string when
  it has none, and \<^verbatim>\<open>None\<close> when no element is found.
\<close>

definition findtext :: "element \<Rightarrow> string \<Rightarrow> string \<Rightarrow> string option" where
  "findtext root a b =
     (case concat (map (\<lambda>e. filter (\<lambda>c. tag c = b) (children e))
                     (filter (\<lambda>e. tag e = a) (concat (map iter (children root))))) of
        [] \<Rightarrow> None
      | c # _ \<Rightarrow> Some (case text_of c of None \<Rightarrow> [] | Some t \<Rightarrow> t))"

definition etree_parse :: "host \<Rightarrow> string \<Rightarrow> element io" where
  "etree_parse h path =
     io_call (ParseFile path) (case parse h path of None \<Rightarrow> Inl ParseError | Some root \<Rightarrow> Inr root)"

definition retrieve_key_osx :: "host \<Rightarrow> string io" where
  "retrieve_key_osx h =
     io_bind (find_app_support_file h ACTIVATION_PATH) (\<lambda>actpath.
     case actpath of
       None \<Rightarrow> io_raise (ADEPTError ''Could not locate ADE activation'')
     | Some actpath \<Rightarrow>
         io_bind (etree_parse h actpath) (\<lambda>tree.
         let userkey = findtext tree (adept ''credentials'') (adept ''privateLicenseKey'') in
         io_bind (case userkey of
                    None \<Rightarrow> io_raise AttributeError
                  | Some userkey \<Rightarrow> decode_base64 h userkey) (\<lambda>userkey.
         io_return (py_slice userkey (Some 26) None))))"

text \<open>The module selects one of the two definitions when it is imported.\<close>

definition retrieve_key :: "host \<Rightarrow> string io" where
  "retrieve_key h = (if iswindows h then retrieve_key_windows h else retrieve_key_osx h)"

section \<open>The behaviour described by the design document\<close>

text \<open>
  Key unwrap and de-padding, in the words of the design: drop the first 26 bytes of the
  decrypted buffer, and drop the final \<open>N\<close> bytes, where \<open>N\<close> is the numeric value of
  the last byte.
\<close>

definition drop_header_and_padding :: "string \<Rightarrow> string" where
  "drop_header_and_padding p =
     (let t = drop 26 p; n = of_char (last p) in take (length t - n) t)"

text \<open>
  The entropy buffer, in the words of the design: the volume serial as a 4-byte big-endian
  unsigned integer, the 12-byte vendor signature, the 3-byte feature signature and the
  user name, one byte for each character, truncated or zero-padded to 13 bytes. The
  volume is the one of the system directory; the vendor signature is the registers
  \<^verbatim>\<open>ebx\<close>, \<^verbatim>\<open>edx\<close>, \<^verbatim>\<open>ecx\<close> of \<^verbatim>\<open>cpuid\<close> with selector 0, as they lie in memory.
\<close>

definition big_endian_4 :: "32 word \<Rightarrow> string" where
  "big_endian_4 v =
     [char_of (unat v div 16777216), char_of (unat v div 65536),
      char_of (unat v div 256), char_of (unat v)]"

definition truncate_or_pad :: "nat \<Rightarrow> string \<Rightarrow> string" where
  "truncate_or_pad n s =
     (if n \<le> length s then take n s else s @ replicate (n - length s) (CHR 0x00))"

definition system_root :: "host \<Rightarrow> string" where
  "system_root h = takeWhile (\<lambda>c. c \<noteq> CHR 0x5C) (system_directory h) @ [CHR 0x5C]"

definition little_endian_4 :: "32 word \<Rightarrow> string" where
  "little_endian_4 v =
     [char_of (unat v), char_of (unat v div 256),
      char_of (unat v div 65536), char_of (unat v div 16777216)]"

definition vendor_signature :: "host \<Rightarrow> string" where
  "vendor_signature h =
     (let r = cpuid h 0
      in little_endian_4 (ebx r) @ little_endian_4 (edx r) @ little_endian_4 (ecx r))"

definition user_name_bytes :: "host \<Rightarrow> string" where
  "user_name_bytes h = map (\<lambda>c. char_of (unat c)) (user_name h)"

text \<open>
  The three most significant bytes of a 32-bit value, and its three least significant
  bytes, in both cases the most significant of the three first.
\<close>

definition most_significant_3 :: "32 word \<Rightarrow> string" where
  "most_significant_3 v =
     [char_of (unat v div 16777216), char_of (unat v div 65536), char_of (unat v div 256)]"

definition least_significant_3 :: "32 word \<Rightarrow> string" where
  "least_significant_3 v =
     [char_of (unat v div 65536), char_of (unat v div 256), char_of (unat v)]"

definition feature_signature :: "host \<Rightarrow> string" where
  "feature_signature h = least_significant_3 (eax (cpuid h 1))"

text \<open>
  The credential store, in the words of the design: the children of a node are named by
  a zero-padded index and enumerated from index 0 until a child cannot be opened, at most
  16 of them; a node carries a type tag (its default value) and a leaf a value named
  \<^verbatim>\<open>value\<close>.
\<close>

definition child :: "regkey \<Rightarrow> nat \<Rightarrow> regkey option" where
  "child k i = map_of (subkeys k) (fmt04d i)"

definition type_tag :: "regkey \<Rightarrow> string option" where
  "type_tag k = map_of (reg_values k) []"

definition payload :: "regkey \<Rightarrow> string option" where
  "payload k = map_of (reg_values k) ''value''"

fun enumerated_from :: "regkey \<Rightarrow> nat list \<Rightarrow> (nat \<times> regkey) list" where
  "enumerated_from k [] = []"
| "enumerated_from k (i # rest) =
     (case child k i of None \<Rightarrow> [] | Some c \<Rightarrow> (i, c) # enumerated_from k rest)"

definition enumerated :: "regkey \<Rightarrow> (nat \<times> regkey) list" where
  "enumerated k = enumerated_from k [0..<16]"

text \<open>The indices at which an open is attempted: the last one may be the one that fails.\<close>

fun tried_from :: "regkey \<Rightarrow> nat list \<Rightarrow> nat list" where
  "tried_from k [] = []"
| "tried_from k (i # rest) = (case child k i of None \<Rightarrow> [i] | Some c \<Rightarrow> i # tried_from k rest)"

definition tried :: "regkey \<Rightarrow> nat list" where
  "tried k = tried_from k [0..<16]"

text \<open>
  The leaves tagged \<^verbatim>\<open>privateLicenseKey\<close> under the nodes tagged \<^verbatim>\<open>credentials\<close>, in index
  order: depth-1 index ascending, then depth-2 index ascending.
\<close>

definition license_leaves_of :: "regkey \<Rightarrow> (nat \<times> regkey) list" where
  "license_leaves_of p =
     filter (\<lambda>(j, l). type_tag l = Some ''privateLicenseKey'') (enumerated p)"

definition license_leaves_from :: "regkey \<Rightarrow> nat list \<Rightarrow> ((nat \<times> nat) \<times> regkey) list" where
  "license_leaves_from root ixs =
     concat (map (\<lambda>(i, p). map (\<lambda>(j, l). ((i, j), l)) (license_leaves_of p))
               (filter (\<lambda>(i, p). type_tag p = Some ''credentials'') (enumerated_from root ixs)))"

definition license_leaves :: "regkey \<Rightarrow> ((nat \<times> nat) \<times> regkey) list" where
  "license_leaves root = license_leaves_from root [0..<16]"

text \<open>The value of the first of a list of leaves.\<close>

definition first_payload :: "('a \<times> regkey) list \<Rightarrow> string option" where
  "first_payload ls = (case ls of [] \<Rightarrow> None | (ix, l) # _ \<Rightarrow> payload l)"

text \<open>
  A store is well formed when every enumerated node has a type tag, and every enumerated
  leaf of a node tagged \<^verbatim>\<open>credentials\<close> has a type tag and, when that is
  \<^verbatim>\<open>privateLicenseKey\<close>, a value.
\<close>

definition leaves_well_formed :: "regkey \<Rightarrow> nat list \<Rightarrow> bool" where
  "leaves_well_formed p ixs =
     list_all (\<lambda>(j, l). type_tag l \<noteq> None \<and>
                        (type_tag l = Some ''privateLicenseKey'' \<longrightarrow> payload l \<noteq> None))
       (enumerated_from p ixs)"

definition well_formed_from :: "regkey \<Rightarrow> nat list \<Rightarrow> bool" where
  "well_formed_from root ixs =
     list_all (\<lambda>(i, p). type_tag p \<noteq> None \<and>
                        (type_tag p = Some ''credentials'' \<longrightarrow> leaves_well_formed p [0..<16]))
       (enumerated_from root ixs)"

definition well_formed :: "regkey \<Rightarrow> bool" where
  "well_formed root = well_formed_from root [0..<16]"

text \<open>The activation key of a host, when there is one.\<close>

definition activation_key :: "host \<Rightarrow> regkey option" where
  "activation_key h = map_of (subkeys (hkcu h)) PRIVATE_LICENCE_KEY_PATH"

text \<open>A registry call on the key at a path.\<close>

definition touches :: "string list \<Rightarrow> event \<Rightarrow> bool" where
  "touches path ev =
     (case ev of RegOpenKey q \<Rightarrow> q = path | RegQueryValueEx q n \<Rightarrow> q = path | _ \<Rightarrow> False)"

text \<open>
  A registry call of the search below the key at \<open>path\<close>: on a child whose index is tried,
  or on a child, whose index is tried, of such a child that could be opened.
\<close>

definition within_tried :: "string list \<Rightarrow> regkey \<Rightarrow> event \<Rightarrow> bool" where
  "within_tried path root ev =
     (\<exists>i \<in> set (tried root).
        touches (path @ [fmt04d i]) ev \<or>
        (case child root i of
           None \<Rightarrow> False
         | Some p \<Rightarrow> \<exists>j \<in> set (tried p). touches (path @ [fmt04d i, fmt04d j]) ev))"


section \<open>Hosts for the examples\<close>

text \<open>
  The examples run on a host whose codec decodes canonical RFC 4648 base64 and whose
  cipher stands in for PyCrypto: it accepts the key and ciphertext lengths AES accepts
  and returns the ciphertext as the plaintext, so that the decrypted buffer of an example
  can be read off the wrapped value.
\<close>

definition b64_value :: "char \<Rightarrow> nat option" where
  "b64_value c =
     (let n = of_char c in
      if 65 \<le> n \<and> n \<le> 90 then Some (n - 65)
      else if 97 \<le> n \<and> n \<le> 122 then Some (n - 71)
      else if 48 \<le> n \<and> n \<le> 57 then Some (n + 4)
      else if c = CHR ''+'' then Some 62
      else if c = CHR ''/'' then Some 63
      else None)"

fun rfc4648_decode :: "string \<Rightarrow> string option" where
  "rfc4648_decode [] = Some []"
| "rfc4648_decode (a # b # c # d # rest) =
     (case (b64_value a, b64_value b) of
        (Some x, Some y) \<Rightarrow>
          (if c = CHR ''='' then
             (if d = CHR ''='' \<and> rest = [] then Some [char_of (x * 4 + y div 16)] else None)
           else case b64_value c of
             None \<Rightarrow> None
           | Some z \<Rightarrow>
               (if d = CHR ''='' then
                  (if rest = [] then Some [char_of (x * 4 + y div 16), char_of (y * 16 + z div 4)]
                   else None)
                else case b64_value d of
                  None \<Rightarrow> None
                | Some w \<Rightarrow>
                    map_option
                      (\<lambda>r. [char_of (x * 4 + y div 16), char_of (y * 16 + z div 4),
                            char_of (z * 64 + w)] @ r)
                      (rfc4648_decode rest)))
      | _ \<Rightarrow> None)"
| "rfc4648_decode _ = None"

definition identity_cipher :: "string \<Rightarrow> string \<Rightarrow> string option" where
  "identity_cipher key c =
     (if length key \<in> {16, 24, 32} \<and> length c mod 16 = 0 then Some c else None)"

text \<open>The registers of a \<^verbatim>\<open>GenuineIntel\<close> processor.\<close>

definition example_cpuid :: "32 word \<Rightarrow> cpu_regs" where
  "example_cpuid a =
     (if a = 0 then \<lparr>eax = 0x0D, ebx = 0x756E6547, ecx = 0x6C65746E, edx = 0x49656E69\<rparr>
      else \<lparr>eax = 0x000306A9, ebx = 0x00100800, ecx = 0x7FBAE3FF, edx = 0xBFEBFBFF\<rparr>)"

definition example_host :: host where
  "example_host =
     \<lparr>iswindows = True,
      aes = Some identity_cipher,
      base64 = rfc4648_decode,
      system_directory = ''C:'' @ [CHR 0x5C] @ ''WINDOWS'' @ [CHR 0x5C] @ ''system32'',
      volume_serial = (\<lambda>path. 0x1C2D3E4F),
      cpuid = example_cpuid,
      user_name = [0x61, 0x6C, 0x69, 0x63, 0x65],
      hkcu = RegKey [] [],
      dpapi = (\<lambda>indata entropy. Some indata),
      folders = (\<lambda>d. None),
      isfile = (\<lambda>p. False),
      parse = (\<lambda>p. None)\<rparr>"

definition header26 :: string where
  "header26 = ''HEADERHEADERHEADERHEADERHE''"

definition key16 :: string where
  "key16 = ''0123456789abcdef''"

text \<open>Registry trees for the examples: a leaf with a type tag and a value.\<close>

definition leaf :: "string \<Rightarrow> string \<Rightarrow> regkey" where
  "leaf t v = RegKey [([], t), (''value'', v)] []"

text \<open>
  The example host after activation: the device key holds the sealed key-encryption
  key, and the activation key is the given tree.
\<close>

definition activated :: "regkey \<Rightarrow> host" where
  "activated root =
     example_host
       \<lparr>hkcu := RegKey []
          [(DEVICE_KEY_PATH, RegKey [(''key'', key16)] []),
           (PRIVATE_LICENCE_KEY_PATH, root)]\<rparr>"

text \<open>
  The only node tagged \<^verbatim>\<open>credentials\<close> is at index 0003, and its leaf tagged
  \<^verbatim>\<open>privateLicenseKey\<close> at index 0007.
\<close>

definition synthetic_tree :: regkey where
  "synthetic_tree =
     RegKey []
       [(''0000'', RegKey [([], ''activationServiceInfo'')] []),
        (''0001'', RegKey [([], ''activationToken'')] []),
        (''0002'', RegKey [([], ''licenseServiceInfo'')] []),
        (''0003'', RegKey [([], ''credentials'')]
           [(''0000'', leaf ''user'' ''urn:uuid:3f1c'' ),
            (''0001'', leaf ''username'' ''alice''),
            (''0002'', leaf ''pkcs12'' ''MIIB''),
            (''0003'', leaf ''licenseCertificate'' ''MIIC''),
            (''0004'', leaf ''authenticationCertificate'' ''MIID''),
            (''0005'', leaf ''publicLicenseKey'' ''MIIE''),
            (''0006'', leaf ''encryptedPrivateLicenseKey'' ''MIIF''),
            (''0007'', leaf ''privateLicenseKey''
                         ''SEVBREVSSEVBREVSSEVBREVSSEVBREVSSEVLRVkDAwM='')])]"

text \<open>
  The first node tagged \<^verbatim>\<open>credentials\<close> has no leaf tagged \<^verbatim>\<open>privateLicenseKey\<close>; the
  second has one.
\<close>

definition two_credentials_tree :: regkey where
  "two_credentials_tree =
     RegKey []
       [(''0000'', RegKey [([], ''credentials'')]
           [(''0000'', leaf ''user'' ''urn:uuid:3f1c''),
            (''0001'', leaf ''username'' ''alice'')]),
        (''0001'', RegKey [([], ''credentials'')]
           [(''0000'', leaf ''privateLicenseKey''
                         ''SEVBREVSSEVBREVSSEVBREVSSEVBREVSSEVLRVkDAwM='')])]"

text \<open>A tree whose only license key is below a seventeenth child.\<close>

definition seventeen_children_tree :: regkey where
  "seventeen_children_tree =
     RegKey []
       (map (\<lambda>name. (name, RegKey [([], ''activationToken'')] []))
          [''0000'', ''0001'', ''0002'', ''0003'', ''0004'', ''0005'', ''0006'', ''0007'',
           ''0008'', ''0009'', ''0010'', ''0011'', ''0012'', ''0013'', ''0014'', ''0015'']
        @ [(''0016'', RegKey [([], ''credentials'')]
              [(''0000'', leaf ''privateLicenseKey''
                            ''SEVBREVSSEVBREVSSEVBREVSSEVBREVSSEVLRVkDAwM='')])])"

text \<open>A tree without a child 0000: its child 0001 is never reached.\<close>

definition gap_tree :: regkey where
  "gap_tree =
     RegKey []
       [(''0001'', RegKey [([], ''credentials'')]
           [(''0000'', leaf ''privateLicenseKey''
                         ''SEVBREVSSEVBREVSSEVBREVSSEVBREVSSEVLRVkDAwM='')])]"

text \<open>
  The example host as a Macintosh: the activation document is found in the application
  support folder of the user and parses to the given root element.
\<close>

definition user_activation_file :: string where
  "user_activation_file =
     ''/Users/alice/Library/Application Support/Adobe/Digital Editions/activation.dat''"

definition mac_host :: "element \<Rightarrow> host" where
  "mac_host doc =
     example_host
       \<lparr>iswindows := False,
        aes := None,
        folders := (\<lambda>d. case d of
                          kUserDomain \<Rightarrow> Some ''/Users/alice/Library/Application Support''
                        | kLocalDomain \<Rightarrow> Some ''/Library/Application Support''),
        isfile := (\<lambda>p. p = user_activation_file),
        parse := (\<lambda>p. if p = user_activation_file then Some doc else None)\<rparr>"


definition document_without_key :: element where
  "document_without_key =
     Element (adept ''activationInfo'') None
       [Element (adept ''credentials'') None
          [Element (adept ''username'') (Some ''alice'') []]]"


section \<open>Properties\<close>

subsection \<open>Computations\<close>

text \<open>Rules that evaluate the examples.\<close>

lemma replicate_numeral: "replicate (numeral k) x = x # replicate (pred_numeral k) x"
  by (simp add: numeral_eq_Suc)

lemmas eval_simps = b64_value_def char_of_def bit_0 bit_Suc replicate_numeral

lemma io_bind_return: "io_bind (io_return a) f = f a"
  by (simp add: io_bind_def io_return_def split: prod.splits)

lemma io_bind_raise: "io_bind (io_raise e) f = io_raise e"
  by (simp add: io_bind_def io_raise_def)

lemma outcome_io_bind:
  "outcome (io_bind m f) = (case outcome m of Inl e \<Rightarrow> Inl e | Inr a \<Rightarrow> outcome (f a))"
  by (cases m) (simp add: io_bind_def split: sum.splits prod.splits)

lemma trace_io_bind:
  "trace (io_bind m f) = (case outcome m of Inl e \<Rightarrow> trace m | Inr a \<Rightarrow> trace m @ trace (f a))"
  by (cases m) (simp add: io_bind_def split: sum.splits prod.splits)

subsection \<open>Slices\<close>

lemma py_getitem_last: "s \<noteq> [] \<Longrightarrow> py_getitem s (- 1) = io_return (last s)"
  by (simp add: py_getitem_def Let_def last_conv_nth nat_diff_distrib')

lemma py_getitem_empty: "py_getitem [] (- 1) = io_raise IndexError"
  by (simp add: py_getitem_def)

lemma py_slice_header_pad:
  "0 < n \<Longrightarrow> py_slice s (Some 26) (Some (- int n)) = take (length s - 26 - n) (drop 26 s)"
  by (auto simp: py_slice_def Let_def min_def max_def nat_diff_distrib' add.commute)

lemma py_slice_header_zero: "py_slice s (Some 26) (Some 0) = []"
  by (simp add: py_slice_def Let_def min_def max_def)

lemma py_slice_from: "py_slice s (Some 26) None = drop 26 s"
  by (simp add: py_slice_def Let_def min_def max_def)

subsection \<open>Key unwrap and de-padding\<close>

lemma strip_nonempty:
  "s \<noteq> [] \<Longrightarrow> strip s = io_return (py_slice s (Some 26) (Some (- of_char (last s))))"
  by (simp add: strip_def py_getitem_last io_bind_return)

lemma outcome_finalize:
  "base64 h wrapped = Some c \<Longrightarrow> aes_cbc keykey c = Some p \<Longrightarrow>
   outcome (finalize h aes_cbc keykey wrapped) = outcome (strip p)"
  by (simp add: finalize_def decode_base64_def io_bind_return outcome_io_bind io_call_def)

text \<open>
  C9. When the decrypted buffer ends with the byte 0x00, \<^verbatim>\<open>userkey[26:-0]\<close> is
  \<^verbatim>\<open>userkey[26:0]\<close>: the result is the empty string, and not the buffer without its
  26-byte header (which is not empty when the buffer is longer than the header).
\<close>

theorem finalize_zero_pad_byte:
  assumes "base64 h wrapped = Some c" and "aes_cbc keykey c = Some p"
    and "p \<noteq> []" and "last p = CHR 0x00"
  shows "outcome (finalize h aes_cbc keykey wrapped) = Inr [] \<and>
         (26 < length p \<longrightarrow> outcome (finalize h aes_cbc keykey wrapped) \<noteq> Inr (drop 26 p))"
  using assms
  by (simp add: outcome_finalize strip_nonempty py_slice_header_zero io_return_def)

theorem finalize_zero_pad_byte_witness:
  "base64 example_host ''SEVBREVSSEVBREVSSEVBREVSSEVBREVSSEVLRVkAAAA=''
     = Some (header26 @ ''KEY'' @ [CHR 0x00, CHR 0x00, CHR 0x00]) \<and>
   identity_cipher key16 (header26 @ ''KEY'' @ [CHR 0x00, CHR 0x00, CHR 0x00])
     = Some (header26 @ ''KEY'' @ [CHR 0x00, CHR 0x00, CHR 0x00]) \<and>
   outcome (finalize example_host identity_cipher key16
              ''SEVBREVSSEVBREVSSEVBREVSSEVBREVSSEVLRVkAAAA='') = Inr [] \<and>
   outcome (finalize example_host identity_cipher key16
              ''SEVBREVSSEVBREVSSEVBREVSSEVBREVSSEVLRVkAAAA='') \<noteq> Inr (''KEY'' @ [CHR 0x00, CHR 0x00, CHR 0x00])"
proof -
  let ?w = "''SEVBREVSSEVBREVSSEVBREVSSEVBREVSSEVLRVkAAAA=''"
  let ?p = "header26 @ ''KEY'' @ [CHR 0x00, CHR 0x00, CHR 0x00]"
  have 1: "base64 example_host ?w = Some ?p"
    by (simp add: example_host_def header26_def eval_simps)
  have 2: "identity_cipher key16 ?p = Some ?p"
    by (simp add: identity_cipher_def key16_def header26_def)
  have 3: "?p \<noteq> []" and 4: "last ?p = CHR 0x00"
    by simp_all
  have 5: "26 < length ?p" and 6: "drop 26 ?p = ''KEY'' @ [CHR 0x00, CHR 0x00, CHR 0x00]"
    by (simp_all add: header26_def)
  note r = finalize_zero_pad_byte [where aes_cbc = identity_cipher and keykey = key16, OF 1 2 3 4]
  note a = r [THEN conjunct1]
  note b = r [THEN conjunct2, THEN mp, OF 5, unfolded 6]
  show ?thesis
    by (intro conjI) (rule 1, rule 2, rule a, rule b)
qed

lemma of_char_eq_0_iff: "of_char c = (0::nat) \<longleftrightarrow> c = CHR 0x00"
proof -
  have "(of_char (CHR 0x00) :: nat) = 0"
    by simp
  then show ?thesis
    by (metis of_char_eq_iff)
qed

lemma strip_padded:
  assumes "p \<noteq> []" and "last p \<noteq> CHR 0x00"
  shows "strip p = io_return (drop_header_and_padding p)"
proof -
  have n: "0 < (of_char (last p) :: nat)"
    using assms(2) of_char_eq_0_iff [of "last p"] by (cases "of_char (last p) :: nat") simp_all
  have "(of_char (last p) :: int) = int (of_char (last p))"
    by (simp add: of_nat_of_char)
  then have "py_slice p (Some 26) (Some (- of_char (last p)))
             = take (length p - 26 - of_char (last p)) (drop 26 p)"
    using py_slice_header_pad [OF n, of p] by simp
  then show ?thesis
    using assms(1) by (simp add: strip_nonempty drop_header_and_padding_def Let_def)
qed




subsection \<open>The entropy buffer\<close>

lemma unat_drop_bit_div: "unat (drop_bit n (v :: 32 word)) = unat v div 2 ^ n"
  by (subst unat_drop_bit_eq) (simp add: drop_bit_eq_div)

lemma pack_I_big_endian: "pack_I v = big_endian_4 v"
  by (simp add: pack_I_def big_endian_4_def unat_drop_bit_div)

lemma mov_store_little_endian: "mov_store r = little_endian_4 r"
  by (simp add: mov_store_def little_endian_4_def unat_drop_bit_div)

lemma pack_s_truncate_or_pad: "pack_s n s = truncate_or_pad n s"
  by (simp add: pack_s_def truncate_or_pad_def)

lemma length_truncate_or_pad: "length (truncate_or_pad n s) = n"
  by (simp add: truncate_or_pad_def)

lemma truncate_or_pad_exact: "length s = n \<Longrightarrow> truncate_or_pad n s = s"
  by (simp add: truncate_or_pad_def)

lemma length_little_endian_4: "length (little_endian_4 v) = 4"
  by (simp add: little_endian_4_def)

lemma length_vendor_signature: "length (vendor_signature h) = 12"
  by (simp add: vendor_signature_def Let_def length_little_endian_4)

lemma length_feature_signature: "length (feature_signature h) = 3"
  by (simp add: feature_signature_def least_significant_3_def)

lemma step2_encode_utf_16_le:
  "py_slice_step2 (encode_utf_16_le u) = map (\<lambda>c. char_of (unat c)) u"
  by (induction u) (simp_all add: encode_utf_16_le_def)

lemma py_slice_from_1: "py_slice s (Some 1) None = tl s"
  by (cases s) (simp_all add: py_slice_def Let_def min_def max_def)

lemma build_entropy_value:
  "build_entropy h =
     ([GetSystemDirectoryW, GetVolumeInformationW (system_root h), CPUID 0, CPUID 1, GetUserNameW],
      Inr (big_endian_4 (volume_serial h (system_root h)) @ vendor_signature h
           @ feature_signature h @ truncate_or_pad 13 (user_name_bytes h)))"
proof -
  have v: "mov_store (ebx (cpuid h 0)) @ mov_store (edx (cpuid h 0)) @ mov_store (ecx (cpuid h 0))
             = vendor_signature h"
    by (simp add: vendor_signature_def Let_def mov_store_little_endian)
  have f: "py_slice (pack_I (eax (cpuid h 1))) (Some 1) None = feature_signature h"
    by (simp add: py_slice_from_1 pack_I_big_endian big_endian_4_def feature_signature_def
        least_significant_3_def)
  have u: "py_slice_step2 (encode_utf_16_le (user_name h)) = user_name_bytes h"
    by (simp add: step2_encode_utf_16_le user_name_bytes_def)
  have p: "pack_I12s3s13s a (vendor_signature h) (feature_signature h) d
             = big_endian_4 a @ vendor_signature h @ feature_signature h @ truncate_or_pad 13 d"
    for a d
    by (simp add: pack_I12s3s13s_def pack_I_big_endian pack_s_truncate_or_pad
        truncate_or_pad_exact length_vendor_signature length_feature_signature)
  show ?thesis
    by (simp add: build_entropy_def GetSystemDirectory_def GetVolumeSerialNumber_def cpuid0_def
        cpuid1_def GetUserName_def io_call_def io_bind_def io_return_def Let_def
        system_root_def [symmetric] v f u p)
qed

text \<open>
  C3. The entropy buffer is the concatenation, in this order, of the volume serial packed
  as a 4-byte big-endian unsigned integer, the 12-byte vendor signature, the 3-byte
  feature signature and the user name truncated or zero-padded to 13 bytes: 32 bytes.
\<close>

theorem entropy_fixed_layout:
  "outcome (build_entropy h) =
     Inr (big_endian_4 (volume_serial h (system_root h)) @ vendor_signature h
          @ feature_signature h @ truncate_or_pad 13 (user_name_bytes h)) \<and>
   length (big_endian_4 (volume_serial h (system_root h))) = 4 \<and>
   length (vendor_signature h) = 12 \<and>
   length (feature_signature h) = 3 \<and>
   length (truncate_or_pad 13 (user_name_bytes h)) = 13 \<and>
   length (big_endian_4 (volume_serial h (system_root h)) @ vendor_signature h
           @ feature_signature h @ truncate_or_pad 13 (user_name_bytes h)) = 32"
  by (simp add: build_entropy_value length_truncate_or_pad length_vendor_signature
      length_feature_signature big_endian_4_def)

text \<open>
  C4 (amended). The feature signature in the entropy buffer, its bytes 16 to 18, is the
  three least significant bytes of the value \<^verbatim>\<open>cpuid\<close> returns for selector 1, the most
  significant of the three first: \<^verbatim>\<open>struct.pack('>I', cpuid1())[1:]\<close> drops the most
  significant byte.
\<close>

theorem feature_signature_low_bytes:
  "CPUID 1 \<in> set (trace (build_entropy h)) \<and>
   map_sum id (\<lambda>e. take 3 (drop 16 e)) (outcome (build_entropy h))
     = Inr (least_significant_3 (eax (cpuid h 1)))"
  by (simp add: build_entropy_value length_vendor_signature big_endian_4_def
      feature_signature_def least_significant_3_def)

lemma example_entropy:
  "outcome (build_entropy example_host) =
     Inr ([CHR 0x1C, CHR 0x2D, CHR 0x3E, CHR 0x4F] @ ''GenuineIntel''
          @ [CHR 0x03, CHR 0x06, CHR 0xA9]
          @ ''alice'' @ replicate 8 (CHR 0x00))"
  by (simp add: build_entropy_value big_endian_4_def vendor_signature_def little_endian_4_def
      feature_signature_def least_significant_3_def Let_def example_host_def example_cpuid_def
      system_root_def user_name_bytes_def truncate_or_pad_def eval_simps)

text \<open>
  C4 as stated fails: for the feature value 0x000306A9 the buffer holds 03 06 A9, and the
  three most significant bytes are 00 03 06.
\<close>

theorem feature_signature_top_bytes_counterexample:
  "map_sum id (\<lambda>e. take 3 (drop 16 e)) (outcome (build_entropy example_host))
     = Inr [CHR 0x03, CHR 0x06, CHR 0xA9] \<and>
   most_significant_3 (eax (cpuid example_host 1)) = [CHR 0x00, CHR 0x03, CHR 0x06] \<and>
   map_sum id (\<lambda>e. take 3 (drop 16 e)) (outcome (build_entropy example_host))
     \<noteq> Inr (most_significant_3 (eax (cpuid example_host 1)))"
proof -
  have 1: "map_sum id (\<lambda>e. take 3 (drop 16 e)) (outcome (build_entropy example_host))
             = Inr [CHR 0x03, CHR 0x06, CHR 0xA9]"
    by (simp add: example_entropy)
  have 2: "most_significant_3 (eax (cpuid example_host 1)) = [CHR 0x00, CHR 0x03, CHR 0x06]"
    by (simp add: most_significant_3_def example_host_def example_cpuid_def eval_simps)
  have 3: "map_sum id (\<lambda>e. take 3 (drop 16 e)) (outcome (build_entropy example_host))
             \<noteq> Inr (most_significant_3 (eax (cpuid example_host 1)))"
    unfolding 1 2 by simp
  show ?thesis
    by (intro conjI) (rule 1, rule 2, rule 3)
qed

subsection \<open>The credential store walker\<close>

lemma OpenKey_child:
  "OpenKey (path, k) (fmt04d i) =
     ([RegOpenKey (path @ [fmt04d i])],
      case child k i of None \<Rightarrow> Inl WindowsError | Some c \<Rightarrow> Inr (path @ [fmt04d i], c))"
  by (simp add: OpenKey_def child_def io_call_def)

lemma QueryValueEx_type_tag:
  "QueryValueEx (path, k) None =
     ([RegQueryValueEx path []], case type_tag k of None \<Rightarrow> Inl WindowsError | Some v \<Rightarrow> Inr v)"
  by (simp add: QueryValueEx_def type_tag_def io_call_def)

lemma QueryValueEx_payload:
  "QueryValueEx (path, k) (Some ''value'') =
     ([RegQueryValueEx path ''value''],
      case payload k of None \<Rightarrow> Inl WindowsError | Some v \<Rightarrow> Inr v)"
  by (simp add: QueryValueEx_def payload_def io_call_def Let_def)

declare scan_leaves.simps(2) [simp del] scan_parents.simps(2) [simp del]

lemmas scan_simps =
  scan_leaves.simps(2) scan_parents.simps(2)
  OpenKey_child QueryValueEx_type_tag QueryValueEx_payload try_except_WindowsError_def
  io_bind_def io_return_def

lemma scan_leaves_unopenable:
  "child p j = None \<Longrightarrow>
   scan_leaves (path, p) (j # rest) = ([RegOpenKey (path @ [fmt04d j])], Inr None)"
  by (simp add: scan_simps)

lemma scan_leaves_skip:
  "child p j = Some l \<Longrightarrow> type_tag l = Some t \<Longrightarrow> t \<noteq> ''privateLicenseKey'' \<Longrightarrow>
   scan_leaves (path, p) (j # rest) =
     ([RegOpenKey (path @ [fmt04d j]), RegQueryValueEx (path @ [fmt04d j]) []]
        @ trace (scan_leaves (path, p) rest),
      outcome (scan_leaves (path, p) rest))"
  by (simp add: scan_simps split: prod.splits sum.splits)

lemma scan_leaves_match:
  "child p j = Some l \<Longrightarrow> type_tag l = Some ''privateLicenseKey'' \<Longrightarrow> payload l = Some v \<Longrightarrow>
   scan_leaves (path, p) (j # rest) =
     ([RegOpenKey (path @ [fmt04d j]), RegQueryValueEx (path @ [fmt04d j]) [],
       RegQueryValueEx (path @ [fmt04d j]) ''value''],
      Inr (Some v))"
  by (simp add: scan_simps)

lemma scan_leaves_outcome:
  "leaves_well_formed p js \<Longrightarrow>
   outcome (scan_leaves (path, p) js) =
     Inr (first_payload (filter (\<lambda>(j, l). type_tag l = Some ''privateLicenseKey'')
                           (enumerated_from p js)))"
proof (induction js)
  case Nil
  then show ?case by (simp add: io_return_def first_payload_def)
next
  case (Cons j js)
  show ?case
  proof (cases "child p j")
    case None
    then show ?thesis by (simp add: scan_leaves_unopenable first_payload_def)
  next
    case (Some l)
    with Cons.prems obtain t where t: "type_tag l = Some t"
      and v: "t = ''privateLicenseKey'' \<longrightarrow> payload l \<noteq> None"
      and wf: "leaves_well_formed p js"
      by (auto simp: leaves_well_formed_def)
    show ?thesis
    proof (cases "t = ''privateLicenseKey''")
      case True
      with v obtain x where "payload l = Some x" by auto
      with Some t True show ?thesis
        by (simp add: scan_leaves_match first_payload_def)
    next
      case False
      with Some t Cons.IH [OF wf] show ?thesis
        by (simp add: scan_leaves_skip)
    qed
  qed
qed

lemma scan_leaves_last:
  "leaves_well_formed p js \<Longrightarrow>
   filter (\<lambda>(j, l). type_tag l = Some ''privateLicenseKey'') (enumerated_from p js) = (j, l) # r \<Longrightarrow>
   trace (scan_leaves (path, p) js) \<noteq> [] \<and>
   last (trace (scan_leaves (path, p) js)) = RegQueryValueEx (path @ [fmt04d j]) ''value''"
proof (induction js)
  case Nil
  then show ?case by simp
next
  case (Cons j' js)
  show ?case
  proof (cases "child p j'")
    case None
    with Cons.prems show ?thesis by simp
  next
    case (Some l')
    with Cons.prems(1) obtain t where t: "type_tag l' = Some t"
      and v: "t = ''privateLicenseKey'' \<longrightarrow> payload l' \<noteq> None"
      and wf: "leaves_well_formed p js"
      by (auto simp: leaves_well_formed_def)
    show ?thesis
    proof (cases "t = ''privateLicenseKey''")
      case True
      with v obtain x where "payload l' = Some x" by auto
      with Some t True Cons.prems(2) show ?thesis
        by (simp add: scan_leaves_match)
    next
      case False
      with Some t Cons.prems(2) Cons.IH [OF wf] show ?thesis
        by (simp add: scan_leaves_skip)
    qed
  qed
qed

lemma leaves_well_formed_payload:
  "leaves_well_formed p js \<Longrightarrow>
   (j, l) \<in> set (filter (\<lambda>(j, l). type_tag l = Some ''privateLicenseKey'') (enumerated_from p js)) \<Longrightarrow>
   \<exists>v. payload l = Some v"
  by (auto simp: leaves_well_formed_def list_all_iff)

lemma scan_parents_unopenable:
  "child root i = None \<Longrightarrow>
   scan_parents (path, root) (i # rest) = ([RegOpenKey (path @ [fmt04d i])], Inr None)"
  by (simp add: scan_simps)

lemma scan_parents_skip:
  "child root i = Some p \<Longrightarrow> type_tag p = Some t \<Longrightarrow> t \<noteq> ''credentials'' \<Longrightarrow>
   scan_parents (path, root) (i # rest) =
     ([RegOpenKey (path @ [fmt04d i]), RegQueryValueEx (path @ [fmt04d i]) []]
        @ trace (scan_parents (path, root) rest),
      outcome (scan_parents (path, root) rest))"
  by (simp add: scan_simps split: prod.splits sum.splits)

lemma scan_parents_found:
  "child root i = Some p \<Longrightarrow> type_tag p = Some ''credentials'' \<Longrightarrow>
   outcome (scan_leaves (path @ [fmt04d i], p) [0..<16]) = Inr (Some v) \<Longrightarrow>
   scan_parents (path, root) (i # rest) =
     ([RegOpenKey (path @ [fmt04d i]), RegQueryValueEx (path @ [fmt04d i]) []]
        @ trace (scan_leaves (path @ [fmt04d i], p) [0..<16]),
      Inr (Some v))"
  by (cases "scan_leaves (path @ [fmt04d i], p) [0..<16]") (simp add: scan_simps)

lemma scan_parents_continue:
  "child root i = Some p \<Longrightarrow> type_tag p = Some ''credentials'' \<Longrightarrow>
   outcome (scan_leaves (path @ [fmt04d i], p) [0..<16]) = Inr None \<Longrightarrow>
   scan_parents (path, root) (i # rest) =
     ([RegOpenKey (path @ [fmt04d i]), RegQueryValueEx (path @ [fmt04d i]) []]
        @ trace (scan_leaves (path @ [fmt04d i], p) [0..<16])
        @ trace (scan_parents (path, root) rest),
      outcome (scan_parents (path, root) rest))"
  by (cases "scan_leaves (path @ [fmt04d i], p) [0..<16]")
     (simp add: scan_simps split: prod.splits sum.splits)

lemma license_leaves_from_Cons:
  "license_leaves_from root (i # rest) =
     (case child root i of
        None \<Rightarrow> []
      | Some p \<Rightarrow>
          (if type_tag p = Some ''credentials''
           then map (\<lambda>(j, l). ((i, j), l)) (license_leaves_of p) else [])
          @ license_leaves_from root rest)"
  by (simp add: license_leaves_from_def split: option.splits)

lemma first_payload_map: "first_payload (map (\<lambda>(j, l). ((i, j), l)) ls) = first_payload ls"
  by (cases ls) (auto simp: first_payload_def)

lemma first_payload_append:
  "first_payload (xs @ ys) = (if xs = [] then first_payload ys else first_payload xs)"
  by (cases xs) (auto simp: first_payload_def)

lemma leaves_first_payload:
  assumes "leaves_well_formed p [0..<16]"
  shows "license_leaves_of p = [] \<longleftrightarrow> first_payload (license_leaves_of p) = None"
proof (cases "license_leaves_of p")
  case Nil
  then show ?thesis by (simp add: first_payload_def)
next
  case (Cons x xs)
  obtain j l where x: "x = (j, l)" by (cases x)
  with Cons have "(j, l) \<in> set (license_leaves_of p)" by simp
  with assms obtain v where "payload l = Some v"
    using leaves_well_formed_payload [of p "[0..<16]" j l]
    by (auto simp: license_leaves_of_def enumerated_def)
  with Cons x show ?thesis by (simp add: first_payload_def)
qed

lemma scan_parents_outcome:
  "well_formed_from root ixs \<Longrightarrow>
   outcome (scan_parents (path, root) ixs) = Inr (first_payload (license_leaves_from root ixs))"
proof (induction ixs)
  case Nil
  then show ?case by (simp add: io_return_def first_payload_def license_leaves_from_def)
next
  case (Cons i ixs)
  show ?case
  proof (cases "child root i")
    case None
    then show ?thesis
      by (simp add: scan_parents_unopenable license_leaves_from_Cons first_payload_def)
  next
    case (Some p)
    with Cons.prems obtain t where t: "type_tag p = Some t"
      and lw: "t = ''credentials'' \<longrightarrow> leaves_well_formed p [0..<16]"
      and wf: "well_formed_from root ixs"
      by (auto simp: well_formed_from_def)
    note IH = Cons.IH [OF wf]
    show ?thesis
    proof (cases "t = ''credentials''")
      case False
      with Some t IH show ?thesis
        by (simp add: scan_parents_skip license_leaves_from_Cons)
    next
      case True
      with lw have lw': "leaves_well_formed p [0..<16]" by simp
      have inner: "outcome (scan_leaves (path @ [fmt04d i], p) [0..<16])
                     = Inr (first_payload (license_leaves_of p))"
        using scan_leaves_outcome [OF lw'] by (simp add: license_leaves_of_def enumerated_def)
      show ?thesis
      proof (cases "first_payload (license_leaves_of p)")
        case None
        with leaves_first_payload [OF lw'] have "license_leaves_of p = []" by simp
        with Some t True inner None IH show ?thesis
          by (simp add: scan_parents_continue license_leaves_from_Cons)
      next
        case (Some v)
        with leaves_first_payload [OF lw'] have "license_leaves_of p \<noteq> []" by auto
        with \<open>child root i = Some p\<close> t True inner Some show ?thesis
          by (simp add: scan_parents_found license_leaves_from_Cons first_payload_append
              first_payload_map)
      qed
    qed
  qed
qed

lemma scan_parents_last:
  "well_formed_from root ixs \<Longrightarrow> license_leaves_from root ixs = ((i, j), l) # r \<Longrightarrow>
   trace (scan_parents (path, root) ixs) \<noteq> [] \<and>
   last (trace (scan_parents (path, root) ixs))
     = RegQueryValueEx (path @ [fmt04d i, fmt04d j]) ''value''"
proof (induction ixs)
  case Nil
  then show ?case by (simp add: license_leaves_from_def)
next
  case (Cons i' ixs)
  show ?case
  proof (cases "child root i'")
    case None
    with Cons.prems(2) show ?thesis by (simp add: license_leaves_from_Cons)
  next
    case (Some p)
    with Cons.prems(1) obtain t where t: "type_tag p = Some t"
      and lw: "t = ''credentials'' \<longrightarrow> leaves_well_formed p [0..<16]"
      and wf: "well_formed_from root ixs"
      by (auto simp: well_formed_from_def)
    show ?thesis
    proof (cases "t = ''credentials''")
      case False
      with Some t Cons.prems(2) Cons.IH [OF wf] show ?thesis
        by (simp add: scan_parents_skip license_leaves_from_Cons)
    next
      case True
      with lw have lw': "leaves_well_formed p [0..<16]" by simp
      have inner: "outcome (scan_leaves (path @ [fmt04d i'], p) [0..<16])
                     = Inr (first_payload (license_leaves_of p))"
        using scan_leaves_outcome [OF lw'] by (simp add: license_leaves_of_def enumerated_def)
      show ?thesis
      proof (cases "license_leaves_of p")
        case Nil
        then have "first_payload (license_leaves_of p) = None"
          by (simp add: first_payload_def)
        with Some t True inner Nil Cons.prems(2) Cons.IH [OF wf] show ?thesis
          by (simp add: scan_parents_continue license_leaves_from_Cons)
      next
        case (Cons x xs)
        obtain j' l' where x: "x = (j', l')" by (cases x)
        from Cons x Some t True Cons.prems(2) have eq: "i' = i" "j' = j" "l' = l"
          by (simp_all add: license_leaves_from_Cons)
        from Cons x leaves_first_payload [OF lw'] obtain v
          where v: "first_payload (license_leaves_of p) = Some v"
          by (cases "first_payload (license_leaves_of p)") auto
        have "filter (\<lambda>(j, l). type_tag l = Some ''privateLicenseKey'')
                (enumerated_from p [0..<16]) = (j', l') # xs"
          using Cons x by (simp add: license_leaves_of_def enumerated_def)
        from scan_leaves_last [OF lw' this, of "path @ [fmt04d i']"]
        have "trace (scan_leaves (path @ [fmt04d i'], p) [0..<16]) \<noteq> []"
          and "last (trace (scan_leaves (path @ [fmt04d i'], p) [0..<16]))
                 = RegQueryValueEx (path @ [fmt04d i', fmt04d j']) ''value''"
          by simp_all
        with Some t True inner v eq show ?thesis
          by (simp add: scan_parents_found)
      qed
    qed
  qed
qed

lemma find_license_key_activated:
  "activation_key h = Some root \<Longrightarrow>
   find_license_key h =
     (RegOpenKey [PRIVATE_LICENCE_KEY_PATH]
        # trace (scan_parents ([PRIVATE_LICENCE_KEY_PATH], root) [0..<16]),
      case outcome (scan_parents ([PRIVATE_LICENCE_KEY_PATH], root) [0..<16]) of
        Inl e \<Rightarrow> Inl e
      | Inr None \<Rightarrow> Inl (ADEPTError ''Could not locate privateLicenseKey'')
      | Inr (Some v) \<Rightarrow> Inr v)"
  by (cases "scan_parents ([PRIVATE_LICENCE_KEY_PATH], root) [0..<16]")
     (simp add: find_license_key_def activation_key_def cuser_def OpenKey_def io_call_def
        try_except_WindowsError_def io_bind_def io_return_def io_raise_def
        split: sum.splits option.splits)

lemma find_license_key_not_activated:
  "activation_key h = None \<Longrightarrow>
   find_license_key h =
     ([RegOpenKey [PRIVATE_LICENCE_KEY_PATH]], Inl (ADEPTError ''Could not locate ADE activation''))"
  by (simp add: find_license_key_def activation_key_def cuser_def OpenKey_def io_call_def
      try_except_WindowsError_def io_raise_def)

lemma scan_leaves_trace_Cons:
  "child p j = Some l \<Longrightarrow>
   set (trace (scan_leaves (path, p) (j # rest)))
     \<subseteq> {RegOpenKey (path @ [fmt04d j]), RegQueryValueEx (path @ [fmt04d j]) [],
          RegQueryValueEx (path @ [fmt04d j]) ''value''}
        \<union> set (trace (scan_leaves (path, p) rest))"
  by (cases "scan_leaves (path, p) rest")
     (auto simp: scan_simps split: option.splits sum.splits prod.splits if_splits)

lemma scan_leaves_trace_tried:
  "ev \<in> set (trace (scan_leaves (path, p) js)) \<Longrightarrow>
   \<exists>j \<in> set (tried_from p js). touches (path @ [fmt04d j]) ev"
proof (induction js)
  case Nil
  then show ?case by (simp add: io_return_def)
next
  case (Cons j js)
  show ?case
  proof (cases "child p j")
    case None
    with Cons.prems show ?thesis
      by (simp add: scan_leaves_unopenable touches_def)
  next
    case (Some l)
    from scan_leaves_trace_Cons [OF Some, of path js] Cons.prems
    consider "touches (path @ [fmt04d j]) ev" | "ev \<in> set (trace (scan_leaves (path, p) js))"
      by (auto simp: touches_def)
    then show ?thesis
    proof cases
      case 1
      with Some show ?thesis by simp
    next
      case 2
      with Cons.IH Some show ?thesis by auto
    qed
  qed
qed

lemma scan_parents_trace_Cons:
  "child root i = Some p \<Longrightarrow>
   set (trace (scan_parents (path, root) (i # rest)))
     \<subseteq> {RegOpenKey (path @ [fmt04d i]), RegQueryValueEx (path @ [fmt04d i]) []}
        \<union> set (trace (scan_leaves (path @ [fmt04d i], p) [0..<16]))
        \<union> set (trace (scan_parents (path, root) rest))"
  by (cases "scan_parents (path, root) rest"; cases "scan_leaves (path @ [fmt04d i], p) [0..<16]")
     (auto simp: scan_simps split: option.splits sum.splits prod.splits if_splits)

lemma scan_parents_trace_tried:
  "ev \<in> set (trace (scan_parents (path, root) ixs)) \<Longrightarrow>
   \<exists>i \<in> set (tried_from root ixs).
      touches (path @ [fmt04d i]) ev \<or>
      (case child root i of
         None \<Rightarrow> False
       | Some p \<Rightarrow> \<exists>j \<in> set (tried p). touches (path @ [fmt04d i, fmt04d j]) ev)"
proof (induction ixs)
  case Nil
  then show ?case by (simp add: io_return_def)
next
  case (Cons i ixs)
  show ?case
  proof (cases "child root i")
    case None
    with Cons.prems show ?thesis
      by (simp add: scan_parents_unopenable touches_def)
  next
    case (Some p)
    from scan_parents_trace_Cons [OF Some, of path ixs] Cons.prems
    consider "touches (path @ [fmt04d i]) ev"
      | "ev \<in> set (trace (scan_leaves (path @ [fmt04d i], p) [0..<16]))"
      | "ev \<in> set (trace (scan_parents (path, root) ixs))"
      by (auto simp: touches_def)
    then show ?thesis
    proof cases
      case 1
      with Some show ?thesis by simp
    next
      case 2
      from scan_leaves_trace_tried [OF 2]
      have "\<exists>j \<in> set (tried p). touches (path @ [fmt04d i, fmt04d j]) ev"
        by (simp add: tried_def)
      with Some show ?thesis by simp
    next
      case 3
      with Cons.IH Some show ?thesis by auto
    qed
  qed
qed

lemma tried_from_upt:
  "n \<in> set (tried_from k [a..<b]) \<Longrightarrow>
   a \<le> n \<and> n < b \<and> (\<forall>m. a \<le> m \<and> m < n \<longrightarrow> child k m \<noteq> None)"
proof (induction "b - a" arbitrary: a)
  case 0
  then show ?case by simp
next
  case (Suc d)
  then have ab: "a < b" and d: "d = b - Suc a" by simp_all
  then have upt: "[a..<b] = a # [Suc a..<b]" by (simp add: upt_conv_Cons)
  show ?case
  proof (cases "child k a")
    case None
    with Suc.prems upt ab show ?thesis by auto
  next
    case (Some c)
    with Suc.prems upt have "n = a \<or> n \<in> set (tried_from k [Suc a..<b])" by simp
    then show ?thesis
    proof
      assume "n = a"
      with ab show ?thesis by auto
    next
      assume "n \<in> set (tried_from k [Suc a..<b])"
      from Suc.hyps(1) [OF d this]
      have 1: "Suc a \<le> n" and 2: "n < b"
        and 3: "\<And>m. Suc a \<le> m \<Longrightarrow> m < n \<Longrightarrow> child k m \<noteq> None"
        by auto
      have "child k m \<noteq> None" if "a \<le> m" "m < n" for m
      proof (cases "m = a")
        case True
        with Some show ?thesis by simp
      next
        case False
        with that have "Suc a \<le> m" by simp
        with that 3 show ?thesis by simp
      qed
      with 1 2 show ?thesis by auto
    qed
  qed
qed

lemma tried_from_all_openable:
  "\<forall>m \<in> set ixs. child k m \<noteq> None \<Longrightarrow> tried_from k ixs = ixs"
  by (induction ixs) auto

lemma scan_leaves_opens_tried:
  "leaves_well_formed p js \<Longrightarrow>
   filter (\<lambda>(j, l). type_tag l = Some ''privateLicenseKey'') (enumerated_from p js) = [] \<Longrightarrow>
   j \<in> set (tried_from p js) \<Longrightarrow>
   RegOpenKey (path @ [fmt04d j]) \<in> set (trace (scan_leaves (path, p) js))"
proof (induction js)
  case Nil
  then show ?case by simp
next
  case (Cons j' js)
  show ?case
  proof (cases "child p j'")
    case None
    with Cons.prems show ?thesis by (simp add: scan_leaves_unopenable)
  next
    case (Some l)
    with Cons.prems(1) obtain t where t: "type_tag l = Some t"
      and wf: "leaves_well_formed p js"
      by (auto simp: leaves_well_formed_def)
    from Some t Cons.prems(2) have ne: "t \<noteq> ''privateLicenseKey''"
      and none: "filter (\<lambda>(j, l). type_tag l = Some ''privateLicenseKey'') (enumerated_from p js) = []"
      by (auto split: if_splits)
    from Some Cons.prems(3) have "j = j' \<or> j \<in> set (tried_from p js)" by simp
    with Cons.IH [OF wf none] Some t ne show ?thesis
      by (auto simp: scan_leaves_skip)
  qed
qed

lemma scan_parents_opens_tried:
  "well_formed_from root ixs \<Longrightarrow> license_leaves_from root ixs = [] \<Longrightarrow>
   i \<in> set (tried_from root ixs) \<Longrightarrow>
   RegOpenKey (path @ [fmt04d i]) \<in> set (trace (scan_parents (path, root) ixs)) \<and>
   (\<forall>p j. child root i = Some p \<and> type_tag p = Some ''credentials'' \<and> j \<in> set (tried p) \<longrightarrow>
      RegOpenKey (path @ [fmt04d i, fmt04d j]) \<in> set (trace (scan_parents (path, root) ixs)))"
proof (induction ixs)
  case Nil
  then show ?case by simp
next
  case (Cons i' ixs)
  show ?case
  proof (cases "child root i'")
    case None
    with Cons.prems show ?thesis by (simp add: scan_parents_unopenable)
  next
    case (Some p')
    with Cons.prems(1) obtain t where t: "type_tag p' = Some t"
      and lw: "t = ''credentials'' \<longrightarrow> leaves_well_formed p' [0..<16]"
      and wf: "well_formed_from root ixs"
      by (auto simp: well_formed_from_def)
    from Some Cons.prems(2) have none: "license_leaves_from root ixs = []"
      by (simp add: license_leaves_from_Cons)
    note IH = Cons.IH [OF wf none]
    from Some Cons.prems(3) have mem: "i = i' \<or> i \<in> set (tried_from root ixs)" by simp
    show ?thesis
    proof (cases "t = ''credentials''")
      case False
      then have tr: "trace (scan_parents (path, root) (i' # ixs)) =
          [RegOpenKey (path @ [fmt04d i']), RegQueryValueEx (path @ [fmt04d i']) []]
          @ trace (scan_parents (path, root) ixs)"
        using Some t by (simp add: scan_parents_skip)
      from mem show ?thesis
      proof
        assume "i = i'"
        with Some t False tr show ?thesis by auto
      next
        assume "i \<in> set (tried_from root ixs)"
        with IH tr show ?thesis by auto
      qed
    next
      case True
      with lw have lw': "leaves_well_formed p' [0..<16]" by simp
      from Some t True Cons.prems(2) have nl: "license_leaves_of p' = []"
        by (simp add: license_leaves_from_Cons)
      then have nf: "filter (\<lambda>(j, l). type_tag l = Some ''privateLicenseKey'')
                       (enumerated_from p' [0..<16]) = []"
        by (simp add: license_leaves_of_def enumerated_def)
      have "outcome (scan_leaves (path @ [fmt04d i'], p') [0..<16]) = Inr None"
        using scan_leaves_outcome [OF lw', of "path @ [fmt04d i']"] nf
        by (simp add: first_payload_def)
      with Some t True have tr: "trace (scan_parents (path, root) (i' # ixs)) =
          [RegOpenKey (path @ [fmt04d i']), RegQueryValueEx (path @ [fmt04d i']) []]
          @ trace (scan_leaves (path @ [fmt04d i'], p') [0..<16])
          @ trace (scan_parents (path, root) ixs)"
        by (simp add: scan_parents_continue)
      from mem show ?thesis
      proof
        assume eq: "i = i'"
        have "RegOpenKey (path @ [fmt04d i', fmt04d j])
                \<in> set (trace (scan_leaves (path @ [fmt04d i'], p') [0..<16]))"
          if "j \<in> set (tried p')" for j
          using scan_leaves_opens_tried [OF lw' nf, of j "path @ [fmt04d i']"] that
          by (simp add: tried_def)
        with eq Some tr show ?thesis by auto
      next
        assume "i \<in> set (tried_from root ixs)"
        with IH tr show ?thesis by auto
      qed
    qed
  qed
qed

lemma tried_bounded:
  "n \<in> set (tried k) \<Longrightarrow> n < 16 \<and> (\<forall>m<n. child k m \<noteq> None)"
  using tried_from_upt [of n k 0 16] by (simp add: tried_def)

lemma tried_all:
  "\<forall>m<16. child k m \<noteq> None \<Longrightarrow> tried k = [0..<16]"
  by (simp add: tried_def tried_from_all_openable)

lemma fmt04d_0: "fmt04d 0 = ''0000''"
  by (simp add: fmt04d_def decimal.simps eval_simps)

lemma find_license_key_empty_root:
  assumes "activation_key h = Some root" and "subkeys root = []"
  shows "find_license_key h =
     ([RegOpenKey [PRIVATE_LICENCE_KEY_PATH], RegOpenKey [PRIVATE_LICENCE_KEY_PATH, ''0000'']],
      Inl (ADEPTError ''Could not locate privateLicenseKey''))"
proof -
  have "child root 0 = None"
    using assms(2) by (simp add: child_def)
  then have "scan_parents ([PRIVATE_LICENCE_KEY_PATH], root) [0..<16]
               = ([RegOpenKey [PRIVATE_LICENCE_KEY_PATH, ''0000'']], Inr None)"
    using scan_parents_unopenable [of root 0 "[PRIVATE_LICENCE_KEY_PATH]" "[1..<16]"]
    by (simp add: upt_conv_Cons fmt04d_0)
  with assms(1) show ?thesis
    by (simp add: find_license_key_activated)
qed

lemma upt_16: "[0..<16] = [0, 1, 2, 3, 4, 5, 6, 7, 8, 9, 10, 11, 12, 13, 14, 15]"
  by (simp add: upt_rec)

lemma fmt04d_values:
  "fmt04d 0 = ''0000''" "fmt04d 1 = ''0001''" "fmt04d 2 = ''0002''" "fmt04d 3 = ''0003''"
  "fmt04d 4 = ''0004''" "fmt04d 5 = ''0005''" "fmt04d 6 = ''0006''" "fmt04d 7 = ''0007''"
  "fmt04d 8 = ''0008''" "fmt04d 9 = ''0009''" "fmt04d 10 = ''0010''" "fmt04d 11 = ''0011''"
  "fmt04d 12 = ''0012''" "fmt04d 13 = ''0013''" "fmt04d 14 = ''0014''" "fmt04d 15 = ''0015''"
  "fmt04d (Suc 0) = ''0001''"
  by (simp_all add: fmt04d_def decimal.simps eval_simps)

lemmas store_simps =
  upt_16 fmt04d_values child_def type_tag_def payload_def leaf_def enumerated_def
  tried_def license_leaves_def license_leaves_from_def license_leaves_of_def first_payload_def
  well_formed_def well_formed_from_def leaves_well_formed_def

lemma activation_key_activated: "activation_key (activated root) = Some root"
  by (simp add: activation_key_def activated_def DEVICE_KEY_PATH_def PRIVATE_LICENCE_KEY_PATH_def)

text \<open>
  C2. On a well-formed store the search returns the value of the first leaf tagged
  \<^verbatim>\<open>privateLicenseKey\<close> in index order (depth-1 index ascending, then depth-2 index
  ascending under a node tagged \<^verbatim>\<open>credentials\<close>), and reading that value is the last call
  it makes: no sibling is scanned after the match. When there is no such leaf it raises
  the error of the module. The example is the synthetic tree with the credentials node
  at index 0003 and the leaf at index 0007.
\<close>

theorem find_license_key_first_leaf:
  assumes "activation_key h = Some root" and "well_formed root"
  shows "outcome (find_license_key h) =
           (case first_payload (license_leaves root) of
              None \<Rightarrow> Inl (ADEPTError ''Could not locate privateLicenseKey'')
            | Some v \<Rightarrow> Inr v) \<and>
         (\<forall>i j l r. license_leaves root = ((i, j), l) # r \<longrightarrow>
            last (trace (find_license_key h))
              = RegQueryValueEx [PRIVATE_LICENCE_KEY_PATH, fmt04d i, fmt04d j] ''value'')"
proof (intro conjI allI impI)
  from assms(2) have wf: "well_formed_from root [0..<16]"
    by (simp add: well_formed_def)
  show "outcome (find_license_key h) =
           (case first_payload (license_leaves root) of
              None \<Rightarrow> Inl (ADEPTError ''Could not locate privateLicenseKey'')
            | Some v \<Rightarrow> Inr v)"
    using scan_parents_outcome [OF wf, of "[PRIVATE_LICENCE_KEY_PATH]"]
    by (simp add: find_license_key_activated [OF assms(1)] license_leaves_def)
  fix i j l r
  assume "license_leaves root = ((i, j), l) # r"
  then have "license_leaves_from root [0..<16] = ((i, j), l) # r"
    by (simp add: license_leaves_def)
  from scan_parents_last [OF wf this, of "[PRIVATE_LICENCE_KEY_PATH]"]
  show "last (trace (find_license_key h))
          = RegQueryValueEx [PRIVATE_LICENCE_KEY_PATH, fmt04d i, fmt04d j] ''value''"
    by (simp add: find_license_key_activated [OF assms(1)])
qed

lemma synthetic_tree_well_formed: "well_formed synthetic_tree"
  by (simp add: synthetic_tree_def store_simps)

lemma synthetic_tree_leaves:
  "license_leaves synthetic_tree =
     [((3, 7), leaf ''privateLicenseKey'' ''SEVBREVSSEVBREVSSEVBREVSSEVBREVSSEVLRVkDAwM='')]"
  by (simp add: synthetic_tree_def store_simps)

theorem find_license_key_first_leaf_witness:
  "activation_key (activated synthetic_tree) = Some synthetic_tree \<and>
   well_formed synthetic_tree \<and>
   outcome (find_license_key (activated synthetic_tree)) = Inr ''SEVBREVSSEVBREVSSEVBREVSSEVBREVSSEVLRVkDAwM='' \<and>
   last (trace (find_license_key (activated synthetic_tree)))
     = RegQueryValueEx [PRIVATE_LICENCE_KEY_PATH, ''0003'', ''0007''] ''value''"
proof -
  note r = find_license_key_first_leaf [OF activation_key_activated synthetic_tree_well_formed]
  have a: "outcome (find_license_key (activated synthetic_tree)) = Inr ''SEVBREVSSEVBREVSSEVBREVSSEVBREVSSEVLRVkDAwM=''"
    using r [THEN conjunct1]
    by (simp add: synthetic_tree_leaves first_payload_def leaf_def payload_def)
  have b: "last (trace (find_license_key (activated synthetic_tree)))
             = RegQueryValueEx [PRIVATE_LICENCE_KEY_PATH, ''0003'', ''0007''] ''value''"
    using r [THEN conjunct2, rule_format, OF synthetic_tree_leaves]
    by (simp add: fmt04d_values)
  show ?thesis
    by (intro conjI)
       (rule activation_key_activated, rule synthetic_tree_well_formed, rule a, rule b)
qed

text \<open>
  C10. When the node at index \<open>i\<close> is tagged \<^verbatim>\<open>credentials\<close> and none of its enumerated
  children is tagged \<^verbatim>\<open>privateLicenseKey\<close>, the outer loop does not fail at \<open>i\<close>: its
  calls go on with those of the scan of the following indices, its outcome is the
  outcome of that scan, and it returns the value of a leaf found under a later node.
\<close>

theorem search_continues_after_empty_credentials:
  assumes "child root i = Some p" and "type_tag p = Some ''credentials''"
    and "leaves_well_formed p [0..<16]" and "license_leaves_of p = []"
  shows "outcome (scan_parents (path, root) (i # rest)) = outcome (scan_parents (path, root) rest) \<and>
         trace (scan_parents (path, root) (i # rest)) =
           [RegOpenKey (path @ [fmt04d i]), RegQueryValueEx (path @ [fmt04d i]) []]
           @ trace (scan_leaves (path @ [fmt04d i], p) [0..<16])
           @ trace (scan_parents (path, root) rest) \<and>
         (\<forall>k j l r v.
            well_formed_from root rest \<and> license_leaves_from root rest = ((k, j), l) # r \<and>
            payload l = Some v \<longrightarrow>
            outcome (scan_parents (path, root) (i # rest)) = Inr (Some v))"
proof -
  have "outcome (scan_leaves (path @ [fmt04d i], p) [0..<16]) = Inr None"
    using scan_leaves_outcome [OF assms(3), of "path @ [fmt04d i]"] assms(4)
    by (simp add: license_leaves_of_def enumerated_def first_payload_def)
  note step = scan_parents_continue [OF assms(1) assms(2) this, of rest]
  have "outcome (scan_parents (path, root) (i # rest)) = Inr (Some v)"
    if "well_formed_from root rest" and "license_leaves_from root rest = ((k, j), l) # r"
      and "payload l = Some v" for k j l r v
    using scan_parents_outcome [OF that(1), of path] that(2) that(3) step
    by (simp add: first_payload_def)
  with step show ?thesis
    by auto
qed

lemma two_credentials_tree_rest:
  "well_formed_from two_credentials_tree [1, 2, 3, 4, 5, 6, 7, 8, 9, 10, 11, 12, 13, 14, 15]"
  "license_leaves_from two_credentials_tree [1, 2, 3, 4, 5, 6, 7, 8, 9, 10, 11, 12, 13, 14, 15]
     = [((1, 0), leaf ''privateLicenseKey'' ''SEVBREVSSEVBREVSSEVBREVSSEVBREVSSEVLRVkDAwM='')]"
  by (simp_all add: two_credentials_tree_def store_simps)

theorem search_continues_after_empty_credentials_witness:
  "child two_credentials_tree 0
     = Some (RegKey [([], ''credentials'')]
               [(''0000'', leaf ''user'' ''urn:uuid:3f1c''), (''0001'', leaf ''username'' ''alice'')]) \<and>
   license_leaves_of (RegKey [([], ''credentials'')]
               [(''0000'', leaf ''user'' ''urn:uuid:3f1c''), (''0001'', leaf ''username'' ''alice'')]) = [] \<and>
   outcome (find_license_key (activated two_credentials_tree)) = Inr ''SEVBREVSSEVBREVSSEVBREVSSEVBREVSSEVLRVkDAwM=''"
proof -
  let ?p = "RegKey [([], ''credentials'')]
              [(''0000'', leaf ''user'' ''urn:uuid:3f1c''), (''0001'', leaf ''username'' ''alice'')]"
  let ?rest = "[1, 2, 3, 4, 5, 6, 7, 8, 9, 10, 11, 12, 13, 14, 15] :: nat list"
  have 1: "child two_credentials_tree 0 = Some ?p"
    by (simp add: two_credentials_tree_def child_def fmt04d_values)
  have 2: "type_tag ?p = Some ''credentials''"
    by (simp add: type_tag_def)
  have 3: "leaves_well_formed ?p [0..<16]"
    by (simp add: store_simps)
  have 4: "license_leaves_of ?p = []"
    by (simp add: store_simps)
  have 5: "payload (leaf ''privateLicenseKey'' ''SEVBREVSSEVBREVSSEVBREVSSEVBREVSSEVLRVkDAwM='') = Some ''SEVBREVSSEVBREVSSEVBREVSSEVBREVSSEVLRVkDAwM=''"
    by (simp add: payload_def leaf_def)
  note r = search_continues_after_empty_credentials
             [OF 1 2 3 4, of "[PRIVATE_LICENCE_KEY_PATH]" ?rest, THEN conjunct2, THEN conjunct2, rule_format,
              OF conjI [OF two_credentials_tree_rest(1) conjI [OF two_credentials_tree_rest(2) 5]]]
  then have "outcome (scan_parents ([PRIVATE_LICENCE_KEY_PATH], two_credentials_tree) [0..<16]) = Inr (Some ''SEVBREVSSEVBREVSSEVBREVSSEVBREVSSEVLRVkDAwM='')"
    by (simp add: upt_16)
  then have a: "outcome (find_license_key (activated two_credentials_tree)) = Inr ''SEVBREVSSEVBREVSSEVBREVSSEVBREVSSEVLRVkDAwM=''"
    by (simp add: find_license_key_activated [OF activation_key_activated])
  show ?thesis
    by (intro conjI) (rule 1, rule 4, rule a)
qed

text \<open>
  C5. The search fails with the error of the module when the activation key cannot be
  opened. Otherwise every registry call of the search is the opening of the activation
  key or a call on a child, or a child of an opened child, whose index is tried; and an
  index is tried only when it is below 16 and every smaller index could be opened (all
  of 0 to 15 are tried when all can be opened). When no leaf tagged
  \<^verbatim>\<open>privateLicenseKey\<close> is enumerated, every tried index of both levels has been opened
  and the search fails with \<^verbatim>\<open>Could not locate privateLicenseKey\<close>. On an activation key
  without children the only calls are the opening of the key and of its child 0000.
\<close>

theorem find_license_key_enumeration:
  "(activation_key h = None \<longrightarrow>
      find_license_key h =
        ([RegOpenKey [PRIVATE_LICENCE_KEY_PATH]], Inl (ADEPTError ''Could not locate ADE activation''))) \<and>
   (activation_key h = Some root \<longrightarrow>
      (\<forall>ev \<in> set (trace (find_license_key h)).
         ev = RegOpenKey [PRIVATE_LICENCE_KEY_PATH] \<or> within_tried [PRIVATE_LICENCE_KEY_PATH] root ev) \<and>
      (well_formed root \<and> license_leaves root = [] \<longrightarrow>
         outcome (find_license_key h) = Inl (ADEPTError ''Could not locate privateLicenseKey'') \<and>
         (\<forall>i \<in> set (tried root).
            RegOpenKey [PRIVATE_LICENCE_KEY_PATH, fmt04d i] \<in> set (trace (find_license_key h)) \<and>
            (\<forall>p j. child root i = Some p \<and> type_tag p = Some ''credentials'' \<and>
                   j \<in> set (tried p) \<longrightarrow>
               RegOpenKey [PRIVATE_LICENCE_KEY_PATH, fmt04d i, fmt04d j] \<in> set (trace (find_license_key h))))) \<and>
      (subkeys root = [] \<longrightarrow>
         find_license_key h =
           ([RegOpenKey [PRIVATE_LICENCE_KEY_PATH], RegOpenKey [PRIVATE_LICENCE_KEY_PATH, ''0000'']],
            Inl (ADEPTError ''Could not locate privateLicenseKey'')))) \<and>
   (\<forall>n \<in> set (tried k). n < 16 \<and> (\<forall>m<n. child k m \<noteq> None)) \<and>
   ((\<forall>m<16. child k m \<noteq> None) \<longrightarrow> tried k = [0..<16])"
proof (intro conjI impI ballI)
  assume "activation_key h = None"
  then show "find_license_key h =
        ([RegOpenKey [PRIVATE_LICENCE_KEY_PATH]], Inl (ADEPTError ''Could not locate ADE activation''))"
    by (rule find_license_key_not_activated)
next
  fix ev
  assume a: "activation_key h = Some root" and "ev \<in> set (trace (find_license_key h))"
  then have "ev = RegOpenKey [PRIVATE_LICENCE_KEY_PATH] \<or> ev \<in> set (trace (scan_parents ([PRIVATE_LICENCE_KEY_PATH], root) [0..<16]))"
    by (simp add: find_license_key_activated)
  then show "ev = RegOpenKey [PRIVATE_LICENCE_KEY_PATH] \<or> within_tried [PRIVATE_LICENCE_KEY_PATH] root ev"
    using scan_parents_trace_tried [of ev "[PRIVATE_LICENCE_KEY_PATH]" root "[0..<16]"]
    by (auto simp: within_tried_def tried_def)
next
  assume a: "activation_key h = Some root" and b: "well_formed root \<and> license_leaves root = []"
  then have wf: "well_formed_from root [0..<16]" and nl: "license_leaves_from root [0..<16] = []"
    by (simp_all add: well_formed_def license_leaves_def)
  show "outcome (find_license_key h) = Inl (ADEPTError ''Could not locate privateLicenseKey'')"
    using scan_parents_outcome [OF wf, of "[PRIVATE_LICENCE_KEY_PATH]"] nl
    by (simp add: find_license_key_activated [OF a] first_payload_def)
  fix i
  assume "i \<in> set (tried root)"
  then have i: "i \<in> set (tried_from root [0..<16])"
    by (simp add: tried_def)
  note o = scan_parents_opens_tried [OF wf nl i, of "[PRIVATE_LICENCE_KEY_PATH]"]
  from o [THEN conjunct1]
  show "RegOpenKey [PRIVATE_LICENCE_KEY_PATH, fmt04d i] \<in> set (trace (find_license_key h))"
    by (simp add: find_license_key_activated [OF a])
  from o [THEN conjunct2] show "\<forall>p j. child root i = Some p \<and> type_tag p = Some ''credentials'' \<and>
                   j \<in> set (tried p) \<longrightarrow>
               RegOpenKey [PRIVATE_LICENCE_KEY_PATH, fmt04d i, fmt04d j] \<in> set (trace (find_license_key h))"
    by (simp add: find_license_key_activated [OF a])
next
  assume "activation_key h = Some root" and "subkeys root = []"
  then show "find_license_key h =
           ([RegOpenKey [PRIVATE_LICENCE_KEY_PATH], RegOpenKey [PRIVATE_LICENCE_KEY_PATH, ''0000'']],
            Inl (ADEPTError ''Could not locate privateLicenseKey''))"
    by (rule find_license_key_empty_root)
next
  fix n
  assume "n \<in> set (tried k)"
  then show "n < 16" and "\<forall>m<n. child k m \<noteq> None"
    using tried_bounded [of n k] by simp_all
next
  assume "\<forall>m<16. child k m \<noteq> None"
  then show "tried k = [0..<16]"
    by (rule tried_all)
qed

lemma seventeen_children_tree_facts:
  "well_formed seventeen_children_tree"
  "license_leaves seventeen_children_tree = []"
  "tried seventeen_children_tree = [0, 1, 2, 3, 4, 5, 6, 7, 8, 9, 10, 11, 12, 13, 14, 15]"
  "\<not> within_tried [PRIVATE_LICENCE_KEY_PATH] seventeen_children_tree (RegOpenKey [PRIVATE_LICENCE_KEY_PATH, ''0016''])"
  by (simp_all add: seventeen_children_tree_def store_simps within_tried_def touches_def)

lemma gap_tree_facts:
  "well_formed gap_tree"
  "license_leaves gap_tree = []"
  "\<not> within_tried [PRIVATE_LICENCE_KEY_PATH] gap_tree (RegOpenKey [PRIVATE_LICENCE_KEY_PATH, ''0001''])"
  by (simp_all add: gap_tree_def store_simps within_tried_def touches_def)

theorem find_license_key_enumeration_witness:
  "find_license_key example_host =
     ([RegOpenKey [PRIVATE_LICENCE_KEY_PATH]], Inl (ADEPTError ''Could not locate ADE activation'')) \<and>
   find_license_key (activated (RegKey [] [])) =
     ([RegOpenKey [PRIVATE_LICENCE_KEY_PATH], RegOpenKey [PRIVATE_LICENCE_KEY_PATH, ''0000'']],
      Inl (ADEPTError ''Could not locate privateLicenseKey'')) \<and>
   outcome (find_license_key (activated seventeen_children_tree))
     = Inl (ADEPTError ''Could not locate privateLicenseKey'') \<and>
   RegOpenKey [PRIVATE_LICENCE_KEY_PATH, ''0015''] \<in> set (trace (find_license_key (activated seventeen_children_tree))) \<and>
   RegOpenKey [PRIVATE_LICENCE_KEY_PATH, ''0016''] \<notin> set (trace (find_license_key (activated seventeen_children_tree))) \<and>
   outcome (find_license_key (activated gap_tree))
     = Inl (ADEPTError ''Could not locate privateLicenseKey'') \<and>
   RegOpenKey [PRIVATE_LICENCE_KEY_PATH, ''0001''] \<notin> set (trace (find_license_key (activated gap_tree)))"
proof -
  have n: "activation_key example_host = None"
    by (simp add: activation_key_def example_host_def)
  note a = find_license_key_enumeration [of example_host, THEN conjunct1, THEN mp, OF n]
  note e = find_license_key_enumeration
             [of "activated (RegKey [] [])" "RegKey [] []", THEN conjunct2, THEN conjunct1,
              THEN mp, OF activation_key_activated]
  have b: "find_license_key (activated (RegKey [] [])) =
     ([RegOpenKey [PRIVATE_LICENCE_KEY_PATH], RegOpenKey [PRIVATE_LICENCE_KEY_PATH, ''0000'']],
      Inl (ADEPTError ''Could not locate privateLicenseKey''))"
    using e by simp
  note s = find_license_key_enumeration
             [of "activated seventeen_children_tree" seventeen_children_tree,
              THEN conjunct2, THEN conjunct1, THEN mp, OF activation_key_activated]
  have c: "outcome (find_license_key (activated seventeen_children_tree))
             = Inl (ADEPTError ''Could not locate privateLicenseKey'')"
    using s seventeen_children_tree_facts(1,2) by simp
  have d: "RegOpenKey [PRIVATE_LICENCE_KEY_PATH, ''0015'']
             \<in> set (trace (find_license_key (activated seventeen_children_tree)))"
    using s [THEN conjunct2, THEN conjunct1, THEN mp,
             OF conjI [OF seventeen_children_tree_facts(1,2)], THEN conjunct2,
             THEN bspec, of 15]
    by (simp add: seventeen_children_tree_facts(3) fmt04d_values)
  have f: "RegOpenKey [PRIVATE_LICENCE_KEY_PATH, ''0016'']
             \<notin> set (trace (find_license_key (activated seventeen_children_tree)))"
    using s [THEN conjunct1] seventeen_children_tree_facts(4) by auto
  note g = find_license_key_enumeration
             [of "activated gap_tree" gap_tree,
              THEN conjunct2, THEN conjunct1, THEN mp, OF activation_key_activated]
  have c': "outcome (find_license_key (activated gap_tree))
             = Inl (ADEPTError ''Could not locate privateLicenseKey'')"
    using g gap_tree_facts(1,2) by simp
  have f': "RegOpenKey [PRIVATE_LICENCE_KEY_PATH, ''0001'']
             \<notin> set (trace (find_license_key (activated gap_tree)))"
    using g [THEN conjunct1] gap_tree_facts(3) by auto
  show ?thesis
    by (intro conjI) (rule a, rule b, rule c, rule d, rule f, rule c', rule f')
qed

subsection \<open>Recovery from the activation document\<close>


lemma retrieve_key_osx_outcome:
  assumes "outcome (find_app_support_file h ACTIVATION_PATH) = Inr (Some actpath)"
    and "parse h actpath = Some doc"
  shows "outcome (retrieve_key_osx h) =
     (case findtext doc (adept ''credentials'') (adept ''privateLicenseKey'') of
        None \<Rightarrow> Inl AttributeError
      | Some t \<Rightarrow> (case base64 h t of None \<Rightarrow> Inl Base64Error | Some b \<Rightarrow> Inr (drop 26 b)))"
  using assms
  by (simp add: retrieve_key_osx_def outcome_io_bind etree_parse_def io_call_def Let_def
      decode_base64_def io_raise_def io_return_def py_slice_from split: option.splits)


lemma mac_host_file:
  "outcome (find_app_support_file (mac_host doc) ACTIVATION_PATH) = Inr (Some user_activation_file)"
  by (simp add: find_app_support_file_def find_folder_def io_call_def io_bind_def io_return_def
      mac_host_def os_path_join_def ACTIVATION_PATH_def user_activation_file_def Let_def)

lemma mac_host_parse: "parse (mac_host doc) user_activation_file = Some doc"
  by (simp add: mac_host_def)


text \<open>
  C7. On a document without the element, \<^verbatim>\<open>findtext\<close> returns \<^verbatim>\<open>None\<close> and
  \<^verbatim>\<open>None.decode('base64')\<close> raises \<^verbatim>\<open>AttributeError\<close>: the failure is not an
  \<^verbatim>\<open>ADEPTError\<close>, although the Windows definition checks \<^verbatim>\<open>userkey is None\<close> and raises
  one.
\<close>

theorem retrieve_key_osx_missing_element:
  "findtext document_without_key (adept ''credentials'') (adept ''privateLicenseKey'') = None \<and>
   outcome (retrieve_key_osx (mac_host document_without_key)) = Inl AttributeError"
proof -
  have 1: "findtext document_without_key (adept ''credentials'') (adept ''privateLicenseKey'') = None"
    by (simp add: findtext_def document_without_key_def adept_def)
  have 2: "outcome (retrieve_key_osx (mac_host document_without_key)) = Inl AttributeError"
    using retrieve_key_osx_outcome [OF mac_host_file mac_host_parse, of document_without_key]
    by (simp add: 1)
  show ?thesis
    by (intro conjI) (rule 1, rule 2)
qed

subsection \<open>Failures\<close>










lemma outcome_try_except_WindowsError:
  "outcome (try_except_WindowsError m handler rest) =
     (case outcome m of
        Inl e \<Rightarrow> (if e = WindowsError then outcome handler else Inl e)
      | Inr x \<Rightarrow> outcome (rest x))"
  by (cases m) (simp add: try_except_WindowsError_def split: sum.splits prod.splits)

lemma activated_device_key:
  "iswindows (activated root)"
  "aes (activated root) = Some identity_cipher"
  "outcome (OpenKey (cuser (activated root)) DEVICE_KEY_PATH)
     = Inr ([DEVICE_KEY_PATH], RegKey [(''key'', key16)] [])"
  "outcome (QueryValueEx ([DEVICE_KEY_PATH], RegKey [(''key'', key16)] []) (Some ''key''))
     = Inr key16"
  "outcome (CryptUnprotectData (activated root) key16 e) = Inr key16"
  by (simp_all add: OpenKey_def QueryValueEx_def CryptUnprotectData_def cuser_def io_call_def
      Let_def activated_def example_host_def)

lemma retrieve_key_activated:
  "outcome (find_license_key (activated root)) = Inr w \<Longrightarrow>
   outcome (retrieve_key (activated root))
     = outcome (finalize (activated root) identity_cipher key16 w)"
  by (simp add: retrieve_key_def retrieve_key_windows_def outcome_io_bind
      outcome_try_except_WindowsError build_entropy_value activated_device_key)



text \<open>The whole retrieval on the synthetic store.\<close>

lemma retrieve_key_synthetic_tree:
  "outcome (retrieve_key (activated synthetic_tree)) = Inr ''KEY''"
proof -
  let ?h = "activated synthetic_tree"
  let ?w = "''SEVBREVSSEVBREVSSEVBREVSSEVBREVSSEVLRVkDAwM=''"
  let ?p = "header26 @ ''KEY'' @ [CHR 0x03, CHR 0x03, CHR 0x03]"
  have "well_formed_from synthetic_tree [0..<16]"
    using synthetic_tree_well_formed by (simp add: well_formed_def)
  from scan_parents_outcome [OF this, of "[PRIVATE_LICENCE_KEY_PATH]"]
  have plk: "outcome (find_license_key ?h) = Inr ?w"
    using synthetic_tree_leaves
    by (simp add: find_license_key_activated [OF activation_key_activated] license_leaves_def
        first_payload_def payload_def leaf_def)
  have b64: "base64 ?h ?w = Some ?p"
    by (simp add: activated_def example_host_def header26_def eval_simps)
  have dec: "identity_cipher key16 ?p = Some ?p"
    by (simp add: identity_cipher_def key16_def header26_def)
  have "drop_header_and_padding ?p = ''KEY''"
    by (simp add: drop_header_and_padding_def header26_def)
  then have "outcome (finalize ?h identity_cipher key16 ?w) = Inr ''KEY''"
    using outcome_finalize [where aes_cbc = identity_cipher, OF b64 dec] strip_padded [of ?p]
    by (simp add: io_return_def)
  then show ?thesis
    by (simp add: retrieve_key_activated [OF plk])
qed

end
